theory Spec2Isabelle
  imports Main "HOL-Library.Word" "HOL-Library.Sublist"
begin

section \<open>Go strings: the library functions the key builder calls\<close>

text \<open>
  A Go string is a sequence of bytes; \<^typ>\<open>string\<close> (a list of 8-bit characters) is
  that sequence. \<open>strings.TrimSpace\<close> removes leading and trailing white space "as
  defined by Unicode": it decodes UTF-8 and removes every rune of the table
  \<open>unicode.White_Space\<close>. The table is U+0009..U+000D, U+0020, U+0085, U+00A0,
  U+1680, U+2000..U+200A, U+2028, U+2029, U+202F, U+205F and U+3000; the list below
  holds the UTF-8 encoding of each. A byte sequence that is not valid UTF-8 decodes to
  the replacement rune, which is not white space, so trimming stops there.
\<close>

definition whiteSpace :: "string list" where
  "whiteSpace =
     [[CHR 0x09], [CHR 0x0A], [CHR 0x0B], [CHR 0x0C], [CHR 0x0D], [CHR 0x20],
      [CHR 0xC2, CHR 0x85], [CHR 0xC2, CHR 0xA0],
      [CHR 0xE1, CHR 0x9A, CHR 0x80],
      [CHR 0xE2, CHR 0x80, CHR 0x80], [CHR 0xE2, CHR 0x80, CHR 0x81],
      [CHR 0xE2, CHR 0x80, CHR 0x82], [CHR 0xE2, CHR 0x80, CHR 0x83],
      [CHR 0xE2, CHR 0x80, CHR 0x84], [CHR 0xE2, CHR 0x80, CHR 0x85],
      [CHR 0xE2, CHR 0x80, CHR 0x86], [CHR 0xE2, CHR 0x80, CHR 0x87],
      [CHR 0xE2, CHR 0x80, CHR 0x88], [CHR 0xE2, CHR 0x80, CHR 0x89],
      [CHR 0xE2, CHR 0x80, CHR 0x8A],
      [CHR 0xE2, CHR 0x80, CHR 0xA8], [CHR 0xE2, CHR 0x80, CHR 0xA9],
      [CHR 0xE2, CHR 0x80, CHR 0xAF],
      [CHR 0xE2, CHR 0x81, CHR 0x9F],
      [CHR 0xE3, CHR 0x80, CHR 0x80]]"

text \<open>\<open>strings.HasPrefix\<close> and \<open>strings.HasSuffix\<close>.\<close>

definition HasPrefix :: "string \<Rightarrow> string \<Rightarrow> bool" where
  "HasPrefix s p \<longleftrightarrow> take (length p) s = p"

definition HasSuffix :: "string \<Rightarrow> string \<Rightarrow> bool" where
  "HasSuffix s p \<longleftrightarrow> length p \<le> length s \<and> drop (length s - length p) s = p"

text \<open>
  The white-space rune a string starts with (ends with), as its encoding, if there is
  one. Decoding the last rune walks back to the nearest byte that starts a rune; every
  encoding of the table is one start byte followed by continuation bytes, so the last
  rune is white space exactly when the string ends with one of the encodings.
\<close>

definition leadingSpace :: "string \<Rightarrow> string option" where
  "leadingSpace s = find (HasPrefix s) whiteSpace"

definition trailingSpace :: "string \<Rightarrow> string option" where
  "trailingSpace s = find (HasSuffix s) whiteSpace"

function TrimLeftSpace :: "string \<Rightarrow> string" where
  "TrimLeftSpace s =
     (case leadingSpace s of
        None \<Rightarrow> s
      | Some w \<Rightarrow> TrimLeftSpace (drop (length w) s))"
  by pat_completeness auto

function TrimRightSpace :: "string \<Rightarrow> string" where
  "TrimRightSpace s =
     (case trailingSpace s of
        None \<Rightarrow> s
      | Some w \<Rightarrow> TrimRightSpace (take (length s - length w) s))"
  by pat_completeness auto

lemma whiteSpace_nonempty: "w \<in> set whiteSpace \<Longrightarrow> w \<noteq> []"
  by (auto simp: whiteSpace_def)

lemma leadingSpace_Some:
  assumes "leadingSpace s = Some w"
  shows "w \<in> set whiteSpace" and "take (length w) s = w" and "length w \<le> length s"
proof -
  from assms obtain i where i: "i < length whiteSpace" "HasPrefix s (whiteSpace ! i)"
    "w = whiteSpace ! i"
    unfolding leadingSpace_def find_Some_iff by blast
  show "w \<in> set whiteSpace" using i(1,3) by simp
  show t: "take (length w) s = w" using i(2,3) by (simp add: HasPrefix_def)
  have "length (take (length w) s) = length w" using t by simp
  then show "length w \<le> length s" by simp
qed

lemma trailingSpace_Some:
  assumes "trailingSpace s = Some w"
  shows "w \<in> set whiteSpace" and "drop (length s - length w) s = w"
    and "length w \<le> length s"
proof -
  from assms obtain i where i: "i < length whiteSpace" "HasSuffix s (whiteSpace ! i)"
    "w = whiteSpace ! i"
    unfolding trailingSpace_def find_Some_iff by blast
  show "w \<in> set whiteSpace" using i(1,3) by simp
  show "drop (length s - length w) s = w" using i(2,3) by (simp add: HasSuffix_def)
  show "length w \<le> length s" using i(2,3) by (simp add: HasSuffix_def)
qed

termination TrimLeftSpace
proof (relation "measure length")
  fix s w
  assume a: "leadingSpace s = Some w"
  have "0 < length w" using whiteSpace_nonempty[OF leadingSpace_Some(1)[OF a]] by simp
  moreover have "length w \<le> length s" by (rule leadingSpace_Some(3)[OF a])
  ultimately have "length s - length w < length s" by linarith
  then show "(drop (length w) s, s) \<in> measure length" by simp
qed simp

termination TrimRightSpace
proof (relation "measure length")
  fix s w
  assume a: "trailingSpace s = Some w"
  have "0 < length w" using whiteSpace_nonempty[OF trailingSpace_Some(1)[OF a]] by simp
  moreover have "length w \<le> length s" by (rule trailingSpace_Some(3)[OF a])
  ultimately have "length s - length w < length s" by linarith
  then show "(take (length s - length w) s, s) \<in> measure length" by simp
qed simp

declare TrimLeftSpace.simps [simp del]
declare TrimRightSpace.simps [simp del]

text \<open>
  \<open>strings.TrimSpace\<close>: its ASCII fast path and its fall-back
  \<open>TrimFunc(s, unicode.IsSpace)\<close> both remove the leading white space, then the
  trailing white space of what is left.
\<close>

definition TrimSpace :: "string \<Rightarrow> string" where
  "TrimSpace s = TrimRightSpace (TrimLeftSpace s)"

text \<open>
  \<open>strings.Trim(s, cutset)\<close> for a cutset of ASCII bytes (the source only passes
  \<open>"/"\<close>): Go then works on bytes, dropping every leading and every trailing byte
  that occurs in the cutset.
\<close>

definition TrimLeft :: "string \<Rightarrow> string \<Rightarrow> string" where
  "TrimLeft s cutset = dropWhile (\<lambda>c. c \<in> set cutset) s"

definition TrimRight :: "string \<Rightarrow> string \<Rightarrow> string" where
  "TrimRight s cutset = rev (dropWhile (\<lambda>c. c \<in> set cutset) (rev s))"

definition Trim :: "string \<Rightarrow> string \<Rightarrow> string" where
  "Trim s cutset = TrimLeft (TrimRight s cutset) cutset"

section \<open>Key builder\<close>

text \<open>
  \<^verbatim>\<open>
  func normalizePrefix(prefix string) string {
      trimmed := strings.TrimSpace(prefix)
      return strings.Trim(trimmed, "/")
  }
  \<close>
\<close>

definition normalizePrefix :: "string \<Rightarrow> string" where
  "normalizePrefix pfx = (let trimmed = TrimSpace pfx in Trim trimmed ''/'')"

text \<open>
  \<^verbatim>\<open>
  func joinKey(prefix, rel string) string {
      rel = strings.TrimSpace(rel)
      rel = strings.Trim(rel, "/")
      if rel == "" { return prefix }
      if prefix == "" { return rel }
      return prefix + "/" + rel
  }
  \<close>
\<close>

definition joinKey :: "string \<Rightarrow> string \<Rightarrow> string" where
  "joinKey pfx rel0 =
     (let rel = TrimSpace rel0;
          rel = Trim rel ''/''
      in if rel = [] then pfx
         else if pfx = [] then rel
         else pfx @ ''/'' @ rel)"


text \<open>
  \<^verbatim>\<open>
  func stringPointer(value string) *string {
      if strings.TrimSpace(value) == "" { return nil }
      return aws.String(value)
  }
  \<close>
  A \<open>*string\<close> is a \<^typ>\<open>string option\<close>, \<open>nil\<close> being \<^term>\<open>None\<close>.
\<close>

definition stringPointer :: "string \<Rightarrow> string option" where
  "stringPointer v = (if TrimSpace v = [] then None else Some v)"

text \<open>\<open>aws.ToString\<close>: the string a pointer holds, the empty string for \<open>nil\<close>.\<close>

definition ToString :: "string option \<Rightarrow> string" where
  "ToString p = (case p of None \<Rightarrow> [] | Some v \<Rightarrow> v)"

section \<open>Errors\<close>

text \<open>
  A Go \<open>error\<close> value. The first six constructors are the errors the package
  receives from the runtime and from the storage client; the others are the errors the
  package makes itself, one constructor for each \<open>fmt.Errorf\<close> call of
  \<open>uploader.go\<close>, holding the arguments of its format. A format that ends in
  \<open>%w\<close> wraps its last argument.
\<close>

datatype error =
    EOF                             \<comment> \<open>\<open>io.EOF\<close>\<close>
  | NotFound                        \<comment> \<open>a \<open>*s3types.NotFound\<close>\<close>
  | NoSuchKey                       \<comment> \<open>a \<open>*s3types.NoSuchKey\<close>\<close>
  | APIError string                 \<comment> \<open>any other \<open>smithy.APIError\<close>, with its \<open>ErrorCode()\<close>\<close>
  | ErrorString string              \<comment> \<open>\<open>errors.New(text)\<close>\<close>
  | Wrapped string error            \<comment> \<open>an error of another package with a text and an \<open>Unwrap()\<close>\<close>
  | ErrNoSourcePath                 \<comment> \<open>\<open>"at least one source path must be specified"\<close>\<close>
  | ErrEmptySourcePath              \<comment> \<open>\<open>"encountered empty source path entry"\<close>\<close>
  | ErrStat string error            \<comment> \<open>\<open>"failed to stat %s: %w"\<close>\<close>
  | ErrTraverse string error        \<comment> \<open>\<open>"failed to traverse %s: %w"\<close>\<close>
  | ErrInspect string error         \<comment> \<open>\<open>"failed to inspect %s: %w"\<close>\<close>
  | ErrRelativePath string error    \<comment> \<open>\<open>"failed to determine relative path for %s: %w"\<close>\<close>
  | ErrDuplicateKey string          \<comment> \<open>\<open>"duplicate object key detected: %s"\<close>\<close>
  | ErrList error                   \<comment> \<open>\<open>"failed to list objects for cleanup: %w"\<close>\<close>
  | ErrDelete error                 \<comment> \<open>\<open>"failed to delete objects: %w"\<close>\<close>
  | ErrNoFiles                      \<comment> \<open>\<open>"no files provided for upload"\<close>\<close>
  | ErrObjectExists string          \<comment> \<open>\<open>"object %s already exists and overwrite is disabled"\<close>\<close>
  | ErrHead string error            \<comment> \<open>\<open>"failed to check if %s exists: %w"\<close>\<close>
  | ErrOpen string error            \<comment> \<open>\<open>"failed to open %s: %w"\<close>\<close>
  | ErrRewind string error          \<comment> \<open>\<open>"failed to rewind %s: %w"\<close>\<close>
  | ErrUpload string string error   \<comment> \<open>\<open>"failed to upload %s to %s: %w"\<close>\<close>

text \<open>\<open>errors.Unwrap\<close>: the error an error wraps, if it wraps one.\<close>

fun Unwrap :: "error \<Rightarrow> error option" where
  "Unwrap (Wrapped m e) = Some e"
| "Unwrap (ErrStat p e) = Some e"
| "Unwrap (ErrTraverse p e) = Some e"
| "Unwrap (ErrInspect p e) = Some e"
| "Unwrap (ErrRelativePath p e) = Some e"
| "Unwrap (ErrList e) = Some e"
| "Unwrap (ErrDelete e) = Some e"
| "Unwrap (ErrHead k e) = Some e"
| "Unwrap (ErrOpen p e) = Some e"
| "Unwrap (ErrRewind p e) = Some e"
| "Unwrap (ErrUpload p k e) = Some e"
| "Unwrap e = None"

text \<open>
  The chain \<open>errors.Is\<close> and \<open>errors.As\<close> walk: the error, what it wraps, what
  that wraps, and so on.
\<close>

fun chain :: "error \<Rightarrow> error list" where
  "chain (Wrapped m e) = Wrapped m e # chain e"
| "chain (ErrStat p e) = ErrStat p e # chain e"
| "chain (ErrTraverse p e) = ErrTraverse p e # chain e"
| "chain (ErrInspect p e) = ErrInspect p e # chain e"
| "chain (ErrRelativePath p e) = ErrRelativePath p e # chain e"
| "chain (ErrList e) = ErrList e # chain e"
| "chain (ErrDelete e) = ErrDelete e # chain e"
| "chain (ErrHead k e) = ErrHead k e # chain e"
| "chain (ErrOpen p e) = ErrOpen p e # chain e"
| "chain (ErrRewind p e) = ErrRewind p e # chain e"
| "chain (ErrUpload p k e) = ErrUpload p k e # chain e"
| "chain e = [e]"

text \<open>\<open>errors.Is(err, target)\<close> for a target that is a plain value such as \<open>io.EOF\<close>.\<close>

definition errorsIs :: "error \<Rightarrow> error \<Rightarrow> bool" where
  "errorsIs err target \<longleftrightarrow> target \<in> set (chain err)"

text \<open>
  \<open>errors.As(err, &apiErr)\<close> for \<open>apiErr\<close> of the interface type
  \<open>smithy.APIError\<close>: the first error of the chain that implements the interface,
  here given by its error code. The two typed errors implement it too, their code being
  the name of the type unless overridden; \<open>isNotFound\<close> looks for them first, so
  it never reads their code.
\<close>

fun apiErrorCode :: "error \<Rightarrow> string option" where
  "apiErrorCode (APIError code) = Some code"
| "apiErrorCode NotFound = Some ''NotFound''"
| "apiErrorCode NoSuchKey = Some ''NoSuchKey''"
| "apiErrorCode e = None"

definition AsAPIError :: "error \<Rightarrow> string option" where
  "AsAPIError err = (case List.map_filter apiErrorCode (chain err) of [] \<Rightarrow> None | c # cs \<Rightarrow> Some c)"

section \<open>The library functions and the file system the package depends on\<close>

text \<open>
  The functions of the Go library whose result depends on the platform or on large
  tables are parameters of the model: \<open>strings.ToLower\<close> (the Unicode case tables),
  the functions of \<open>path/filepath\<close> (the path separator and volume names of the
  platform), \<open>mime.TypeByExtension\<close> (a table the system's MIME files extend) and
  \<open>http.DetectContentType\<close> (the sniffing algorithm). \<open>filepath.Rel\<close> can fail.
\<close>

record Lib =
  strings_ToLower :: "string \<Rightarrow> string"
  filepath_Clean :: "string \<Rightarrow> string"
  filepath_Base :: "string \<Rightarrow> string"
  filepath_Rel :: "string \<Rightarrow> string \<Rightarrow> error + string"
  filepath_ToSlash :: "string \<Rightarrow> string"
  filepath_Ext :: "string \<Rightarrow> string"
  mime_TypeByExtension :: "string \<Rightarrow> string"
  http_DetectContentType :: "string \<Rightarrow> string"

text \<open>\<open>os.FileInfo\<close>, as far as the package reads it; \<open>Size()\<close> is an \<open>int64\<close>.\<close>

record FileInfo =
  info_IsDir :: bool
  info_Size :: "64 word"

text \<open>
  One call of the function \<open>filepath.WalkDir\<close> is given: the path \<open>current\<close>, the
  directory entry (what its methods \<open>IsDir()\<close> and \<open>Info()\<close> return) and the
  error \<open>walkErr\<close> of reading that entry. When \<open>walkErr\<close> is not \<open>nil\<close> the
  entry may be \<open>nil\<close>; the callback then returns before it touches the entry.
\<close>

record WalkCall =
  current :: string
  entry_IsDir :: bool
  entry_Info :: "error + FileInfo"
  walkErr :: "error option"

text \<open>
  An open \<open>*os.File\<close>: the bytes of the file and the read position. \<open>readErr\<close>
  and \<open>seekErr\<close> are the errors, if any, that reading and seeking this file fail
  with.
\<close>

record File =
  content :: string
  pos :: nat
  readErr :: "error option"
  seekErr :: "error option"

text \<open>
  The file system, as the package sees it: \<open>os.Stat\<close>, \<open>os.Open\<close>, and for a
  root directory the calls \<open>filepath.WalkDir\<close> makes to a callback that returns
  \<open>nil\<close> every time, in the lexical order of the walk.
\<close>

record Files =
  os_Stat :: "string \<Rightarrow> error + FileInfo"
  os_Open :: "string \<Rightarrow> error + File"
  walk :: "string \<Rightarrow> WalkCall list"

text \<open>
  \<open>file.Read(buffer)\<close> for a buffer of \<open>n > 0\<close> bytes: the bytes read and the
  error. At the end of the file it reads nothing and returns \<open>io.EOF\<close>.
\<close>

definition Read :: "nat \<Rightarrow> File \<Rightarrow> (string \<times> error option) \<times> File" where
  "Read n f =
     (case readErr f of
        Some e \<Rightarrow> (([], Some e), f)
      | None \<Rightarrow>
          (let data = take n (drop (pos f) (content f))
           in if data = [] then (([], Some EOF), f)
              else ((data, None), f\<lparr>pos := pos f + length data\<rparr>)))"

text \<open>\<open>file.Seek(0, io.SeekStart)\<close>.\<close>

definition SeekStart :: "File \<Rightarrow> error option \<times> File" where
  "SeekStart f =
     (case seekErr f of
        Some e \<Rightarrow> (Some e, f)
      | None \<Rightarrow> (None, f\<lparr>pos := 0\<rparr>))"

text \<open>The bytes a reader of the file gets from its current position on.\<close>

definition stream :: "File \<Rightarrow> string" where
  "stream f = drop (pos f) (content f)"


section \<open>The storage client\<close>

text \<open>
  The request and response structures of the S3 client, with the fields the package
  sets or reads. Pointer fields are options.
\<close>

record HeadObjectInput =
  head_Bucket :: "string option"
  head_Key :: "string option"

record ListObjectsV2Input =
  list_Bucket :: "string option"
  list_Prefix :: "string option"
  list_ContinuationToken :: "string option"

record Object =
  obj_Key :: "string option"

record ListObjectsV2Output =
  Contents :: "Object list"
  NextContinuationToken :: "string option"

record ObjectIdentifier =
  oid_Key :: "string option"

record Delete =
  Objects :: "ObjectIdentifier list"
  Quiet :: "bool option"

record DeleteObjectsInput =
  del_Bucket :: "string option"
  del_Delete :: "Delete option"

record PutObjectInput =
  put_Bucket :: "string option"
  put_Key :: "string option"
  put_Body :: File
  put_ContentType :: "string option"

record UploadOutput =
  out_ETag :: "string option"

text \<open>
  \<^verbatim>\<open>
  type Client interface {
      HeadObject(ctx, params *s3.HeadObjectInput, ...) (*s3.HeadObjectOutput, error)
      ListObjectsV2(ctx, params *s3.ListObjectsV2Input, ...) (*s3.ListObjectsV2Output, error)
      DeleteObjects(ctx, params *s3.DeleteObjectsInput, ...) (*s3.DeleteObjectsOutput, error)
  }
  type PutUploader interface {
      Upload(ctx, input *s3.PutObjectInput, ...) (*manager.UploadOutput, error)
  }
  \<close>
  An implementation of an interface is a record of functions on the state \<open>'s\<close> of
  the implementation (the storage service, or a test double): each takes the request
  and the state and returns the response and the new state. The package discards the
  outputs of \<open>HeadObject\<close> and \<open>DeleteObjects\<close>, so these return the error
  only; it reads the other two outputs only when the error is \<open>nil\<close>.
\<close>

record 's Client =
  HeadObject :: "HeadObjectInput \<Rightarrow> 's \<Rightarrow> error option \<times> 's"
  ListObjectsV2 :: "ListObjectsV2Input \<Rightarrow> 's \<Rightarrow> (error + ListObjectsV2Output) \<times> 's"
  DeleteObjects :: "DeleteObjectsInput \<Rightarrow> 's \<Rightarrow> error option \<times> 's"

record 's PutUploader =
  uploader_Upload :: "PutObjectInput \<Rightarrow> 's \<Rightarrow> (error + UploadOutput) \<times> 's"

record 's Transport =
  client :: "'s Client"
  uploader :: "'s PutUploader"
  bucket :: string
  overwrite :: bool

definition NewTransport :: "'s Client \<Rightarrow> 's PutUploader \<Rightarrow> string \<Rightarrow> bool \<Rightarrow> 's Transport" where
  "NewTransport c u b ow = \<lparr>client = c, uploader = u, bucket = b, overwrite = ow\<rparr>"

section \<open>Plan builder\<close>

record FilePlan =
  Source :: string
  Key :: string
  Size :: "64 word"

record UploadResult =
  res_Source :: string
  res_Key :: string
  res_Size :: "64 word"
  res_ETag :: string

text \<open>
  The callback \<open>BuildPlans\<close> passes to \<open>filepath.WalkDir\<close>. It reads and updates
  the variables \<open>plans\<close> and \<open>seen\<close> of the enclosing function; the model passes
  them in and returns them. \<open>seen\<close> is a \<open>map[string]struct{}\<close>, that is a set.
  \<^verbatim>\<open>
  func(current string, entry os.DirEntry, walkErr error) error {
      if walkErr != nil { return fmt.Errorf("failed to traverse %s: %w", current, walkErr) }
      if entry.IsDir() { return nil }
      fi, err := entry.Info()
      if err != nil { return fmt.Errorf("failed to inspect %s: %w", current, err) }
      rel, err := filepath.Rel(root, current)
      if err != nil { return fmt.Errorf("failed to determine relative path for %s: %w", current, err) }
      key := joinKey(basePrefix, filepath.ToSlash(rel))
      if _, dup := seen[key]; dup { return fmt.Errorf("duplicate object key detected: %s", key) }
      seen[key] = struct{}{}
      plans = append(plans, FilePlan{Source: current, Key: key, Size: fi.Size()})
      return nil
  }
  \<close>
\<close>

definition walkFn ::
  "Lib \<Rightarrow> string \<Rightarrow> string \<Rightarrow> WalkCall \<Rightarrow> FilePlan list \<times> string set \<Rightarrow>
     error + FilePlan list \<times> string set" where
  "walkFn L basePrefix root c st =
     (case st of (plans, seen) \<Rightarrow>
        (case walkErr c of
           Some e \<Rightarrow> Inl (ErrTraverse (current c) e)
         | None \<Rightarrow>
             if entry_IsDir c then Inr (plans, seen)
             else (case entry_Info c of
                     Inl e \<Rightarrow> Inl (ErrInspect (current c) e)
                   | Inr fi \<Rightarrow>
                       (case filepath_Rel L root (current c) of
                          Inl e \<Rightarrow> Inl (ErrRelativePath (current c) e)
                        | Inr rel \<Rightarrow>
                            (let key = joinKey basePrefix (filepath_ToSlash L rel)
                             in if key \<in> seen then Inl (ErrDuplicateKey key)
                                else Inr (plans @ [\<lparr>Source = current c, Key = key,
                                                     Size = info_Size fi\<rparr>],
                                          insert key seen))))))"

text \<open>
  \<open>filepath.WalkDir(root, fn)\<close> calls \<open>fn\<close> for each entry in turn and stops at
  the first call that returns an error, which it returns (the callback above never
  returns \<open>SkipDir\<close> or \<open>SkipAll\<close>).
\<close>

fun WalkDir :: "(WalkCall \<Rightarrow> 'a \<Rightarrow> error + 'a) \<Rightarrow> WalkCall list \<Rightarrow> 'a \<Rightarrow> error + 'a" where
  "WalkDir fn [] st = Inr st"
| "WalkDir fn (c # cs) st =
     (case fn c st of
        Inl e \<Rightarrow> Inl e
      | Inr st' \<Rightarrow> WalkDir fn cs st')"

text \<open>
  The loop \<open>for _, candidate := range paths\<close> of \<open>BuildPlans\<close>, from the state
  \<open>(plans, seen)\<close>. A Go function that returns \<open>([]FilePlan, error)\<close> returns a
  pair here, \<open>nil\<close> being the empty list and \<^term>\<open>None\<close>.
  \<^verbatim>\<open>
  path := strings.TrimSpace(candidate)
  if path == "" { return nil, fmt.Errorf("encountered empty source path entry") }
  info, err := os.Stat(path)
  if err != nil { return nil, fmt.Errorf("failed to stat %s: %w", path, err) }
  if info.IsDir() {
      root := filepath.Clean(path)
      err := filepath.WalkDir(root, func ...)
      if err != nil { return nil, err }
      continue
  }
  key := joinKey(basePrefix, filepath.ToSlash(filepath.Base(path)))
  if _, dup := seen[key]; dup { return nil, fmt.Errorf("duplicate object key detected: %s", key) }
  seen[key] = struct{}{}
  plans = append(plans, FilePlan{Source: path, Key: key, Size: info.Size()})
  \<close>
\<close>

fun buildLoop ::
  "Lib \<Rightarrow> Files \<Rightarrow> string \<Rightarrow> string list \<Rightarrow> FilePlan list \<times> string set \<Rightarrow>
     FilePlan list \<times> error option" where
  "buildLoop L F basePrefix [] st = (fst st, None)"
| "buildLoop L F basePrefix (candidate # rest) st =
     (let path = TrimSpace candidate
      in if path = [] then ([], Some ErrEmptySourcePath)
         else (case os_Stat F path of
                 Inl e \<Rightarrow> ([], Some (ErrStat path e))
               | Inr info \<Rightarrow>
                   if info_IsDir info then
                     (let root = filepath_Clean L path
                      in case WalkDir (walkFn L basePrefix root) (walk F root) st of
                           Inl e \<Rightarrow> ([], Some e)
                         | Inr st' \<Rightarrow> buildLoop L F basePrefix rest st')
                   else
                     (let key = joinKey basePrefix (filepath_ToSlash L (filepath_Base L path))
                      in if key \<in> snd st then ([], Some (ErrDuplicateKey key))
                         else buildLoop L F basePrefix rest
                                (fst st @ [\<lparr>Source = path, Key = key, Size = info_Size info\<rparr>],
                                 insert key (snd st)))))"

text \<open>
  \<^verbatim>\<open>
  func BuildPlans(paths []string, prefix string) ([]FilePlan, error) {
      if len(paths) == 0 {
          return nil, fmt.Errorf("at least one source path must be specified")
      }
      plans := make([]FilePlan, 0)
      seen := make(map[string]struct{})
      basePrefix := normalizePrefix(prefix)
      for _, candidate := range paths { ... }
      return plans, nil
  }
  \<close>
\<close>

definition BuildPlans :: "Lib \<Rightarrow> Files \<Rightarrow> string list \<Rightarrow> string \<Rightarrow> FilePlan list \<times> error option" where
  "BuildPlans L F paths pfx =
     (if length paths = 0 then ([], Some ErrNoSourcePath)
      else (let plans = []; seen = {}; basePrefix = normalizePrefix pfx
            in buildLoop L F basePrefix paths (plans, seen)))"


section \<open>Cleanup engine\<close>

text \<open>
  The loop \<open>for { ... }\<close> of \<open>Cleanup\<close>, from the values \<open>tot\<close> and
  \<open>token\<close> of its variables \<open>total\<close> and \<open>token\<close> and the state \<open>s\<close> of
  the client. The loop may run
  for ever (the service may return a continuation token every time), so the model has a
  bound on the number of iterations: the result is \<^term>\<open>None\<close> when the loop has not
  returned within the bound, and the state reached is returned in every case. \<open>total\<close>
  is a Go \<open>int\<close>, 64 bits wide on every platform the repository builds for (amd64 and
  arm64).
  \<^verbatim>\<open>
  response, err := t.client.ListObjectsV2(ctx, &s3.ListObjectsV2Input{
      Bucket: aws.String(t.bucket), Prefix: stringPointer(resolved), ContinuationToken: token})
  if err != nil { return total, fmt.Errorf("failed to list objects for cleanup: %w", err) }
  if len(response.Contents) == 0 {
      if response.NextContinuationToken == nil { return total, nil }
      token = response.NextContinuationToken
      continue
  }
  batch := make([]s3types.ObjectIdentifier, 0, len(response.Contents))
  for _, obj := range response.Contents {
      batch = append(batch, s3types.ObjectIdentifier{Key: obj.Key})
  }
  _, err = t.client.DeleteObjects(ctx, &s3.DeleteObjectsInput{
      Bucket: aws.String(t.bucket),
      Delete: &s3types.Delete{Objects: batch, Quiet: aws.Bool(true)}})
  if err != nil { return total, fmt.Errorf("failed to delete objects: %w", err) }
  total += len(batch)
  if response.NextContinuationToken == nil { return total, nil }
  token = response.NextContinuationToken
  \<close>
\<close>

fun cleanupLoop ::
  "nat \<Rightarrow> 's Transport \<Rightarrow> string \<Rightarrow> 64 word \<Rightarrow> string option \<Rightarrow> 's \<Rightarrow>
     (64 word \<times> error option) option \<times> 's" where
  "cleanupLoop 0 t resolved tot token s = (None, s)"
| "cleanupLoop (Suc n) t resolved tot token s =
     (case ListObjectsV2 (client t)
             \<lparr>list_Bucket = Some (bucket t), list_Prefix = stringPointer resolved,
              list_ContinuationToken = token\<rparr> s of
        (Inl err, s1) \<Rightarrow> (Some (tot, Some (ErrList err)), s1)
      | (Inr response, s1) \<Rightarrow>
          if length (Contents response) = 0 then
            (case NextContinuationToken response of
               None \<Rightarrow> (Some (tot, None), s1)
             | Some tok \<Rightarrow> cleanupLoop n t resolved tot (Some tok) s1)
          else
            (let batch = map (\<lambda>obj. \<lparr>oid_Key = obj_Key obj\<rparr>) (Contents response)
             in case DeleteObjects (client t)
                       \<lparr>del_Bucket = Some (bucket t),
                        del_Delete = Some \<lparr>Objects = batch, Quiet = Some True\<rparr>\<rparr> s1 of
                  (Some err, s2) \<Rightarrow> (Some (tot, Some (ErrDelete err)), s2)
                | (None, s2) \<Rightarrow>
                    (let tot' = tot + of_nat (length batch)
                     in case NextContinuationToken response of
                          None \<Rightarrow> (Some (tot', None), s2)
                        | Some tok \<Rightarrow> cleanupLoop n t resolved tot' (Some tok) s2)))"

text \<open>
  \<^verbatim>\<open>
  func (t *Transport) Cleanup(ctx context.Context, prefix string) (int, error) {
      total := 0
      var token *string
      resolved := normalizePrefix(prefix)
      if resolved != "" { resolved += "/" }
      for { ... }
  }
  \<close>
\<close>

text \<open>The value of \<open>resolved\<close> when \<open>Cleanup\<close> enters its loop.\<close>

definition resolvePrefix :: "string \<Rightarrow> string" where
  "resolvePrefix pfx =
     (let resolved = normalizePrefix pfx
      in if resolved \<noteq> [] then resolved @ ''/'' else resolved)"

definition Cleanup ::
  "nat \<Rightarrow> 's Transport \<Rightarrow> string \<Rightarrow> 's \<Rightarrow> (64 word \<times> error option) option \<times> 's" where
  "Cleanup fuel t pfx s =
     (let tot = 0; token = None; resolved = resolvePrefix pfx
      in cleanupLoop fuel t resolved tot token s)"

section \<open>Existence guard\<close>

text \<open>
  \<^verbatim>\<open>
  func isNotFound(err error) bool {
      if err == nil { return false }
      var nf *s3types.NotFound
      if errors.As(err, &nf) { return true }
      var ns *s3types.NoSuchKey
      if errors.As(err, &ns) { return true }
      var apiErr smithy.APIError
      if errors.As(err, &apiErr) {
          switch strings.ToLower(apiErr.ErrorCode()) {
          case "notfound", "nosuchkey", "404", "no such key":
              return true
          }
      }
      return false
  }
  \<close>
\<close>

definition isNotFound :: "Lib \<Rightarrow> error option \<Rightarrow> bool" where
  "isNotFound L err =
     (case err of
        None \<Rightarrow> False
      | Some e \<Rightarrow>
          if NotFound \<in> set (chain e) then True
          else if NoSuchKey \<in> set (chain e) then True
          else (case AsAPIError e of
                  Some code \<Rightarrow>
                    strings_ToLower L code \<in>
                      {''notfound'', ''nosuchkey'', ''404'', ''no such key''}
                | None \<Rightarrow> False))"

text \<open>
  \<^verbatim>\<open>
  func (t *Transport) ensureAbsent(ctx context.Context, key string) error {
      _, err := t.client.HeadObject(ctx, &s3.HeadObjectInput{
          Bucket: aws.String(t.bucket), Key: aws.String(key)})
      if err == nil {
          return fmt.Errorf("object %s already exists and overwrite is disabled", key)
      }
      if isNotFound(err) { return nil }
      return fmt.Errorf("failed to check if %s exists: %w", key, err)
  }
  \<close>
\<close>

definition ensureAbsent :: "Lib \<Rightarrow> 's Transport \<Rightarrow> string \<Rightarrow> 's \<Rightarrow> error option \<times> 's" where
  "ensureAbsent L t key s =
     (case HeadObject (client t) \<lparr>head_Bucket = Some (bucket t), head_Key = Some key\<rparr> s of
        (None, s') \<Rightarrow> (Some (ErrObjectExists key), s')
      | (Some err, s') \<Rightarrow>
          if isNotFound L (Some err) then (None, s')
          else (Some (ErrHead key err), s'))"

section \<open>Transfer engine\<close>

text \<open>
  \<^verbatim>\<open>
  func detectContentType(path string, file *os.File) string {
      ext := strings.ToLower(filepath.Ext(path))
      if ext != "" {
          if value := mime.TypeByExtension(ext); value != "" { return value }
      }
      buffer := make([]byte, 512)
      n, err := file.Read(buffer)
      if err != nil && !errors.Is(err, io.EOF) { return "" }
      return http.DetectContentType(buffer[:n])
  }
  \<close>
  The function moves the read position of the file; the model returns the file too.
\<close>

definition detectContentType :: "Lib \<Rightarrow> string \<Rightarrow> File \<Rightarrow> string \<times> File" where
  "detectContentType L path file =
     (let ext = strings_ToLower L (filepath_Ext L path)
      in if ext \<noteq> [] \<and> mime_TypeByExtension L ext \<noteq> []
         then (mime_TypeByExtension L ext, file)
         else (case Read 512 file of
                 ((data, err), file') \<Rightarrow>
                   (case err of
                      None \<Rightarrow> (http_DetectContentType L data, file')
                    | Some e \<Rightarrow>
                        if \<not> errorsIs e EOF then ([], file')
                        else (http_DetectContentType L data, file'))))"

text \<open>
  The body of the loop \<open>for _, plan := range plans\<close> of \<open>Upload\<close>: the error it
  returns from \<open>Upload\<close> with, or the result it appends to \<open>results\<close>. Closing the
  file has no effect the package can see.
  \<^verbatim>\<open>
  if !t.overwrite {
      if err := t.ensureAbsent(ctx, plan.Key); err != nil { return nil, err }
  }
  file, err := os.Open(plan.Source)
  if err != nil { return nil, fmt.Errorf("failed to open %s: %w", plan.Source, err) }
  contentType := detectContentType(plan.Source, file)
  if _, err := file.Seek(0, io.SeekStart); err != nil {
      _ = file.Close()
      return nil, fmt.Errorf("failed to rewind %s: %w", plan.Source, err)
  }
  output, err := t.uploader.Upload(ctx, &s3.PutObjectInput{
      Bucket: aws.String(t.bucket), Key: aws.String(plan.Key),
      Body: file, ContentType: stringPointer(contentType)})
  _ = file.Close()
  if err != nil {
      return nil, fmt.Errorf("failed to upload %s to %s: %w", plan.Source, plan.Key, err)
  }
  results = append(results, UploadResult{Source: plan.Source, Key: plan.Key,
      Size: plan.Size, ETag: aws.ToString(output.ETag)})
  \<close>
\<close>

definition uploadPlan ::
  "Lib \<Rightarrow> Files \<Rightarrow> 's Transport \<Rightarrow> FilePlan \<Rightarrow> 's \<Rightarrow> (error + UploadResult) \<times> 's" where
  "uploadPlan L F t plan s =
     (case (if \<not> overwrite t then ensureAbsent L t (Key plan) s else (None, s)) of
        (Some err, s1) \<Rightarrow> (Inl err, s1)
      | (None, s1) \<Rightarrow>
          (case os_Open F (Source plan) of
             Inl err \<Rightarrow> (Inl (ErrOpen (Source plan) err), s1)
           | Inr file \<Rightarrow>
               (case detectContentType L (Source plan) file of
                  (contentType, file1) \<Rightarrow>
                    (case SeekStart file1 of
                       (Some err, file2) \<Rightarrow> (Inl (ErrRewind (Source plan) err), s1)
                     | (None, file2) \<Rightarrow>
                         (case uploader_Upload (uploader t)
                                 \<lparr>put_Bucket = Some (bucket t), put_Key = Some (Key plan),
                                  put_Body = file2,
                                  put_ContentType = stringPointer contentType\<rparr> s1 of
                            (Inl err, s2) \<Rightarrow>
                              (Inl (ErrUpload (Source plan) (Key plan) err), s2)
                          | (Inr output, s2) \<Rightarrow>
                              (Inr \<lparr>res_Source = Source plan, res_Key = Key plan,
                                    res_Size = Size plan,
                                    res_ETag = ToString (out_ETag output)\<rparr>, s2))))))"

fun uploadLoop ::
  "Lib \<Rightarrow> Files \<Rightarrow> 's Transport \<Rightarrow> FilePlan list \<Rightarrow> UploadResult list \<Rightarrow> 's \<Rightarrow>
     (UploadResult list \<times> error option) \<times> 's" where
  "uploadLoop L F t [] results s = ((results, None), s)"
| "uploadLoop L F t (plan # rest) results s =
     (case uploadPlan L F t plan s of
        (Inl err, s') \<Rightarrow> (([], Some err), s')
      | (Inr r, s') \<Rightarrow> uploadLoop L F t rest (results @ [r]) s')"

text \<open>
  \<^verbatim>\<open>
  func (t *Transport) Upload(ctx context.Context, plans []FilePlan) ([]UploadResult, error) {
      if len(plans) == 0 { return nil, fmt.Errorf("no files provided for upload") }
      results := make([]UploadResult, 0, len(plans))
      for _, plan := range plans { ... }
      return results, nil
  }
  \<close>
\<close>

definition Upload ::
  "Lib \<Rightarrow> Files \<Rightarrow> 's Transport \<Rightarrow> FilePlan list \<Rightarrow> 's \<Rightarrow>
     (UploadResult list \<times> error option) \<times> 's" where
  "Upload L F t plans s =
     (if length plans = 0 then (([], Some ErrNoFiles), s)
      else (let results = [] in uploadLoop L F t plans results s))"


section \<open>Observing the calls to the storage service\<close>

text \<open>
  To state which requests a run sends, and in which order, an implementation of the two
  interfaces is wrapped into one that behaves the same and appends every request it
  receives to a log kept beside the state.
\<close>

datatype call =
    HeadCall HeadObjectInput
  | ListCall ListObjectsV2Input
  | DeleteCall DeleteObjectsInput
  | PutCall PutObjectInput

definition recordingClient :: "'s Client \<Rightarrow> ('s \<times> call list) Client" where
  "recordingClient c =
     \<lparr>HeadObject = (\<lambda>inp (s, log).
        case HeadObject c inp s of (r, s') \<Rightarrow> (r, (s', log @ [HeadCall inp]))),
      ListObjectsV2 = (\<lambda>inp (s, log).
        case ListObjectsV2 c inp s of (r, s') \<Rightarrow> (r, (s', log @ [ListCall inp]))),
      DeleteObjects = (\<lambda>inp (s, log).
        case DeleteObjects c inp s of (r, s') \<Rightarrow> (r, (s', log @ [DeleteCall inp])))\<rparr>"

definition recordingUploader :: "'s PutUploader \<Rightarrow> ('s \<times> call list) PutUploader" where
  "recordingUploader u =
     \<lparr>uploader_Upload = (\<lambda>inp (s, log).
        case uploader_Upload u inp s of (r, s') \<Rightarrow> (r, (s', log @ [PutCall inp])))\<rparr>"

definition recording :: "'s Transport \<Rightarrow> ('s \<times> call list) Transport" where
  "recording t =
     \<lparr>client = recordingClient (client t), uploader = recordingUploader (uploader t),
      bucket = bucket t, overwrite = overwrite t\<rparr>"

text \<open>The keys a delete request names, and the delete requests of a log.\<close>

definition deletedKeys :: "DeleteObjectsInput \<Rightarrow> string option list" where
  "deletedKeys inp = (case del_Delete inp of None \<Rightarrow> [] | Some d \<Rightarrow> map oid_Key (Objects d))"

fun deleteCalls :: "call list \<Rightarrow> DeleteObjectsInput list" where
  "deleteCalls [] = []"
| "deleteCalls (DeleteCall inp # cs) = inp # deleteCalls cs"
| "deleteCalls (c # cs) = deleteCalls cs"

fun listCalls :: "call list \<Rightarrow> ListObjectsV2Input list" where
  "listCalls [] = []"
| "listCalls (ListCall inp # cs) = inp # listCalls cs"
| "listCalls (c # cs) = listCalls cs"

fun headCallKeys :: "call list \<Rightarrow> string option list" where
  "headCallKeys [] = []"
| "headCallKeys (HeadCall inp # cs) = head_Key inp # headCallKeys cs"
| "headCallKeys (c # cs) = headCallKeys cs"

fun putCalls :: "call list \<Rightarrow> PutObjectInput list" where
  "putCalls [] = []"
| "putCalls (PutCall inp # cs) = inp # putCalls cs"
| "putCalls (c # cs) = putCalls cs"

section \<open>The test doubles of \<open>uploader_test.go\<close>\<close>

text \<open>
  \<^verbatim>\<open>
  type fakeClient struct {
      headErr       error
      headCalls     []string
      listOutputs   []*s3.ListObjectsV2Output
      deleteInputs  []*s3.DeleteObjectsInput
      listCallIndex int
  }
  func (f *fakeClient) HeadObject(ctx, params, ...) (*s3.HeadObjectOutput, error) {
      f.headCalls = append(f.headCalls, aws.ToString(params.Key))
      if f.headErr != nil { return nil, f.headErr }
      return &s3.HeadObjectOutput{}, nil
  }
  func (f *fakeClient) ListObjectsV2(ctx, params, ...) (*s3.ListObjectsV2Output, error) {
      if f.listCallIndex >= len(f.listOutputs) { return &s3.ListObjectsV2Output{}, nil }
      out := f.listOutputs[f.listCallIndex]
      f.listCallIndex++
      return out, nil
  }
  func (f *fakeClient) DeleteObjects(ctx, params, ...) (*s3.DeleteObjectsOutput, error) {
      f.deleteInputs = append(f.deleteInputs, params)
      return &s3.DeleteObjectsOutput{}, nil
  }
  type stubUploader struct {
      uploads []*s3.PutObjectInput
      err     error
  }
  func (s *stubUploader) Upload(ctx, input, ...) (*manager.UploadOutput, error) {
      s.uploads = append(s.uploads, input)
      if s.err != nil { return nil, s.err }
      return &manager.UploadOutput{ETag: aws.String("etag")}, nil
  }
  \<close>
  The test's \<open>stubAPIError{code}\<close> implements \<open>smithy.APIError\<close> with that error
  code: it is \<^term>\<open>APIError code\<close>.
\<close>

record fakeClient =
  headErr :: "error option"
  headCalls :: "string list"
  listOutputs :: "ListObjectsV2Output list"
  deleteInputs :: "DeleteObjectsInput list"
  listCallIndex :: nat

record stubUploader =
  uploads :: "PutObjectInput list"
  stub_err :: "error option"

definition fake_HeadObject :: "HeadObjectInput \<Rightarrow> fakeClient \<Rightarrow> error option \<times> fakeClient" where
  "fake_HeadObject params f =
     (let f' = f\<lparr>headCalls := headCalls f @ [ToString (head_Key params)]\<rparr>
      in if headErr f' \<noteq> None then (headErr f', f') else (None, f'))"

definition fake_ListObjectsV2 ::
  "ListObjectsV2Input \<Rightarrow> fakeClient \<Rightarrow> (error + ListObjectsV2Output) \<times> fakeClient" where
  "fake_ListObjectsV2 params f =
     (if listCallIndex f \<ge> length (listOutputs f)
      then (Inr \<lparr>Contents = [], NextContinuationToken = None\<rparr>, f)
      else (let out = listOutputs f ! listCallIndex f
            in (Inr out, f\<lparr>listCallIndex := listCallIndex f + 1\<rparr>)))"

definition fake_DeleteObjects ::
  "DeleteObjectsInput \<Rightarrow> fakeClient \<Rightarrow> error option \<times> fakeClient" where
  "fake_DeleteObjects params f = (None, f\<lparr>deleteInputs := deleteInputs f @ [params]\<rparr>)"

definition stub_Upload ::
  "PutObjectInput \<Rightarrow> stubUploader \<Rightarrow> (error + UploadOutput) \<times> stubUploader" where
  "stub_Upload inp u =
     (let u' = u\<lparr>uploads := uploads u @ [inp]\<rparr>
      in case stub_err u' of
           Some e \<Rightarrow> (Inl e, u')
         | None \<Rightarrow> (Inr \<lparr>out_ETag = Some ''etag''\<rparr>, u'))"

text \<open>
  \<open>NewTransport(client, uploader, bucket, overwrite)\<close> on the two doubles; the state
  is the pair of them.
\<close>

definition fakeTransport :: "string \<Rightarrow> bool \<Rightarrow> (fakeClient \<times> stubUploader) Transport" where
  "fakeTransport b ow =
     NewTransport
       \<lparr>HeadObject = (\<lambda>p (f, u). case fake_HeadObject p f of (r, f') \<Rightarrow> (r, (f', u))),
        ListObjectsV2 = (\<lambda>p (f, u). case fake_ListObjectsV2 p f of (r, f') \<Rightarrow> (r, (f', u))),
        DeleteObjects = (\<lambda>p (f, u). case fake_DeleteObjects p f of (r, f') \<Rightarrow> (r, (f', u)))\<rparr>
       \<lparr>uploader_Upload = (\<lambda>i (f, u). case stub_Upload i u of (r, u') \<Rightarrow> (r, (f, u')))\<rparr>
       b ow"

section \<open>Notions the statements use\<close>

text \<open>A string that consists of white-space runes only.\<close>

definition spaceRun :: "string \<Rightarrow> bool" where
  "spaceRun s \<longleftrightarrow> (\<exists>ws. set ws \<subseteq> set whiteSpace \<and> s = concat ws)"


section \<open>A library and a file system for the examples\<close>

text \<open>
  The examples run the model on a Unix platform with ASCII file names and clean paths.
  There \<open>strings.ToLower\<close> maps the letters \<open>A\<close> to \<open>Z\<close> to \<open>a\<close> to \<open>z\<close>,
  \<open>filepath.Clean\<close> and \<open>filepath.ToSlash\<close> return their argument,
  \<open>filepath.Base\<close> is the last element of the path, \<open>filepath.Ext\<close> the suffix
  of the last element from its last dot on, and \<open>filepath.Rel(root, p)\<close> for a path
  \<open>p\<close> below \<open>root\<close> is what follows \<open>root\<close> and a slash in \<open>p\<close>.
\<close>

definition asciiLower :: "string \<Rightarrow> string" where
  "asciiLower s =
     map (\<lambda>c. case map_of (zip ''ABCDEFGHIJKLMNOPQRSTUVWXYZ'' ''abcdefghijklmnopqrstuvwxyz'') c of
                 Some l \<Rightarrow> l
               | None \<Rightarrow> c) s"

definition unixBase :: "string \<Rightarrow> string" where
  "unixBase path =
     (if path = [] then ''.''
      else (let p = TrimRight path ''/'';
                p = rev (takeWhile (\<lambda>c. c \<noteq> CHR ''/'') (rev p))
            in if p = [] then ''/'' else p))"

definition unixExt :: "string \<Rightarrow> string" where
  "unixExt path =
     (let tail = takeWhile (\<lambda>c. c \<noteq> CHR ''/'') (rev path)
      in if CHR ''.'' \<in> set tail
         then CHR ''.'' # rev (takeWhile (\<lambda>c. c \<noteq> CHR ''.'') tail)
         else [])"

definition unixRel :: "string \<Rightarrow> string \<Rightarrow> error + string" where
  "unixRel root p =
     (if p = root then Inr ''.''
      else if HasPrefix p (root @ ''/'') then Inr (drop (length root + 1) p)
      else Inl (ErrorString ''Rel: can't make path relative''))"

definition testLib :: Lib where
  "testLib =
     \<lparr>strings_ToLower = asciiLower,
      filepath_Clean = (\<lambda>p. p),
      filepath_Base = unixBase,
      filepath_Rel = unixRel,
      filepath_ToSlash = (\<lambda>p. p),
      filepath_Ext = unixExt,
      mime_TypeByExtension = (\<lambda>e. if e = ''.txt'' then ''text/plain; charset=utf-8'' else []),
      http_DetectContentType = (\<lambda>d. if d = [] then ''text/plain; charset=utf-8''
                                      else ''application/octet-stream'')\<rparr>"


text \<open>The two test doubles as a test creates them: \<open>&fakeClient{}\<close>, \<open>&stubUploader{}\<close>.\<close>

definition fake0 :: fakeClient where
  "fake0 = \<lparr>headErr = None, headCalls = [], listOutputs = [], deleteInputs = [], listCallIndex = 0\<rparr>"

definition stub0 :: stubUploader where
  "stub0 = \<lparr>uploads = [], stub_err = None\<rparr>"

text \<open>
  A file system with the files the tests of the package create: a file \<open>data.txt\<close>
  holding \<open>one\<close>, a directory \<open>nested\<close> with a file \<open>data.txt\<close> holding
  \<open>hello\<close>, and beside them a directory \<open>empty\<close> with a subdirectory and no
  file, and a file \<open>blob\<close> of 600 bytes with no extension. No other path exists.
\<close>

definition noSuchFile :: error where
  "noSuchFile = ErrorString ''no such file or directory''"

definition testFiles :: Files where
  "testFiles =
     \<lparr>os_Stat = (\<lambda>p.
        if p = ''/tmp/data.txt'' then Inr \<lparr>info_IsDir = False, info_Size = 3\<rparr>
        else if p = ''/tmp/blob'' then Inr \<lparr>info_IsDir = False, info_Size = 600\<rparr>
        else if p = ''/tmp/nested'' \<or> p = ''/tmp/empty'' then Inr \<lparr>info_IsDir = True, info_Size = 4096\<rparr>
        else Inl noSuchFile),
      os_Open = (\<lambda>p.
        if p = ''/tmp/data.txt''
        then Inr \<lparr>content = ''one'', pos = 0, readErr = None, seekErr = None\<rparr>
        else if p = ''/tmp/nested/data.txt''
        then Inr \<lparr>content = ''hello'', pos = 0, readErr = None, seekErr = None\<rparr>
        else if p = ''/tmp/blob''
        then Inr \<lparr>content = replicate 600 (CHR 0x00), pos = 0, readErr = None, seekErr = None\<rparr>
        else Inl noSuchFile),
      walk = (\<lambda>root.
        if root = ''/tmp/nested''
        then [\<lparr>current = ''/tmp/nested'', entry_IsDir = True,
               entry_Info = Inr \<lparr>info_IsDir = True, info_Size = 4096\<rparr>, walkErr = None\<rparr>,
              \<lparr>current = ''/tmp/nested/data.txt'', entry_IsDir = False,
               entry_Info = Inr \<lparr>info_IsDir = False, info_Size = 5\<rparr>, walkErr = None\<rparr>]
        else if root = ''/tmp/empty''
        then [\<lparr>current = ''/tmp/empty'', entry_IsDir = True,
               entry_Info = Inr \<lparr>info_IsDir = True, info_Size = 4096\<rparr>, walkErr = None\<rparr>,
              \<lparr>current = ''/tmp/empty/sub'', entry_IsDir = True,
               entry_Info = Inr \<lparr>info_IsDir = True, info_Size = 4096\<rparr>, walkErr = None\<rparr>]
        else [\<lparr>current = root, entry_IsDir = False, entry_Info = Inl noSuchFile,
               walkErr = Some noSuchFile\<rparr>])\<rparr>"


text \<open>
  A log in which every put request directly follows a head request for the same bucket
  and key.
\<close>

fun guarded :: "call list \<Rightarrow> bool" where
  "guarded [] = True"
| "guarded (HeadCall h # PutCall p # cs) =
     (head_Bucket h = put_Bucket p \<and> head_Key h = put_Key p \<and> guarded cs)"
| "guarded (PutCall p # cs) = False"
| "guarded (c # cs) = guarded cs"


text \<open>
  The head request the loop of \<open>Upload\<close> sends for a plan before anything else: none
  when overwriting is enabled.
\<close>

definition guardCalls :: "'s Transport \<Rightarrow> FilePlan \<Rightarrow> call list" where
  "guardCalls t plan = (if overwrite t then []
     else [HeadCall \<lparr>head_Bucket = Some (bucket t), head_Key = Some (Key plan)\<rparr>])"

text \<open>
  A put request that uploads the file of a plan: it names the bucket of the transport
  and the key of the plan, a reader of its body gets the whole content of the file that
  \<open>os.Open\<close> returns for the source of the plan, and its content type is the one
  \<open>detectContentType\<close> finds for that file (absent when that is blank).
\<close>

definition uploadsFile :: "Lib \<Rightarrow> Files \<Rightarrow> 's Transport \<Rightarrow> FilePlan \<Rightarrow> PutObjectInput \<Rightarrow> bool" where
  "uploadsFile L F t plan inp \<longleftrightarrow>
     put_Bucket inp = Some (bucket t) \<and> put_Key inp = Some (Key plan) \<and>
     (\<exists>file. os_Open F (Source plan) = Inr file \<and>
        stream (put_Body inp) = content file \<and>
        put_ContentType inp = stringPointer (fst (detectContentType L (Source plan) file)))"

text \<open>
  The traversal of a call of \<open>BuildPlans\<close>: the entries the call meets, in the order
  in which it meets them, each one either a file with the plan it resolves to or the
  failure of a step. A path that is a regular file is one entry; a directory gives the
  entries of its walk, directories left out. The traversal of a path list is that of
  its paths, one after the other.
\<close>

datatype item = Entry FilePlan | Failure error

definition walkItem :: "Lib \<Rightarrow> string \<Rightarrow> string \<Rightarrow> WalkCall \<Rightarrow> item list" where
  "walkItem L basePrefix root c =
     (case walkErr c of
        Some e \<Rightarrow> [Failure (ErrTraverse (current c) e)]
      | None \<Rightarrow>
          if entry_IsDir c then []
          else (case entry_Info c of
                  Inl e \<Rightarrow> [Failure (ErrInspect (current c) e)]
                | Inr fi \<Rightarrow>
                    (case filepath_Rel L root (current c) of
                       Inl e \<Rightarrow> [Failure (ErrRelativePath (current c) e)]
                     | Inr rel \<Rightarrow>
                         [Entry \<lparr>Source = current c,
                                 Key = joinKey basePrefix (filepath_ToSlash L rel),
                                 Size = info_Size fi\<rparr>])))"

definition pathItems :: "Lib \<Rightarrow> Files \<Rightarrow> string \<Rightarrow> string \<Rightarrow> item list" where
  "pathItems L F basePrefix candidate =
     (let path = TrimSpace candidate
      in if path = [] then [Failure ErrEmptySourcePath]
         else (case os_Stat F path of
                 Inl e \<Rightarrow> [Failure (ErrStat path e)]
               | Inr info \<Rightarrow>
                   if info_IsDir info
                   then concat (map (walkItem L basePrefix (filepath_Clean L path))
                                  (walk F (filepath_Clean L path)))
                   else [Entry \<lparr>Source = path,
                                Key = joinKey basePrefix
                                        (filepath_ToSlash L (filepath_Base L path)),
                                Size = info_Size info\<rparr>]))"

definition traversal :: "Lib \<Rightarrow> Files \<Rightarrow> string list \<Rightarrow> string \<Rightarrow> item list" where
  "traversal L F paths pfx = concat (map (pathItems L F (normalizePrefix pfx)) paths)"

text \<open>
  Going through a traversal from the plans and keys collected so far: the first failure
  or the first key seen before ends it with an error.
\<close>

fun collect :: "item list \<Rightarrow> FilePlan list \<times> string set \<Rightarrow> error + FilePlan list \<times> string set" where
  "collect [] st = Inr st"
| "collect (Failure e # is) st = Inl e"
| "collect (Entry p # is) st =
     (if Key p \<in> snd st then Inl (ErrDuplicateKey (Key p))
      else collect is (fst st @ [p], insert (Key p) (snd st)))"

text \<open>
  A storage service held in memory, for the examples: the state is the list of the
  keys of the objects in the bucket. Listing returns, in one page, the keys that start
  with the prefix of the request (all keys when it has none); deleting removes the
  keys the request names; the probe finds a key or fails with \<open>NotFound\<close>; a put
  adds the key.
\<close>

definition bucketClient :: "string list Client" where
  "bucketClient =
     \<lparr>HeadObject = (\<lambda>inp keys.
        (if ToString (head_Key inp) \<in> set keys then None else Some NotFound, keys)),
      ListObjectsV2 = (\<lambda>inp keys.
        (Inr \<lparr>Contents = map (\<lambda>k. \<lparr>obj_Key = Some k\<rparr>)
                             (filter (\<lambda>k. HasPrefix k (ToString (list_Prefix inp))) keys),
              NextContinuationToken = None\<rparr>, keys)),
      DeleteObjects = (\<lambda>inp keys.
        (None, filter (\<lambda>k. Some k \<notin> set (deletedKeys inp)) keys))\<rparr>"

definition bucketUploader :: "string list PutUploader" where
  "bucketUploader =
     \<lparr>uploader_Upload = (\<lambda>inp keys.
        (Inr \<lparr>out_ETag = None\<rparr>, keys @ [ToString (put_Key inp)]))\<rparr>"

definition bucketTransport :: "string list Transport" where
  "bucketTransport = NewTransport bucketClient bucketUploader ''bucket'' True"

text \<open>
  A client that lists only keys under the prefix of the request, as the storage
  service does.
\<close>

definition honoursPrefix :: "'s Client \<Rightarrow> bool" where
  "honoursPrefix c \<longleftrightarrow>
     (\<forall>inp s page s'. ListObjectsV2 c inp s = (Inr page, s') \<longrightarrow>
        (\<forall>obj \<in> set (Contents page).
           \<exists>k. obj_Key obj = Some k \<and> HasPrefix k (ToString (list_Prefix inp))))"


text \<open>
  The requests \<open>Cleanup\<close> is to send when the service answers its listing requests
  with the given pages, one after the other, and an empty last page once they are used
  up: for each page a listing request with the continuation token of the page before,
  followed if the page holds objects by one quiet delete request that names the key of
  every object of the page; the requests end with the first page that has no
  continuation token. \<open>pagesRead\<close> are the pages received up to there.
\<close>

fun expectedCalls ::
  "string \<Rightarrow> string option \<Rightarrow> string option \<Rightarrow> ListObjectsV2Output list \<Rightarrow> call list" where
  "expectedCalls b pfx tok [] =
     [ListCall \<lparr>list_Bucket = Some b, list_Prefix = pfx, list_ContinuationToken = tok\<rparr>]"
| "expectedCalls b pfx tok (page # pages) =
     ListCall \<lparr>list_Bucket = Some b, list_Prefix = pfx, list_ContinuationToken = tok\<rparr> #
     (if Contents page = [] then []
      else [DeleteCall \<lparr>del_Bucket = Some b,
                       del_Delete = Some \<lparr>Objects = map (\<lambda>obj. \<lparr>oid_Key = obj_Key obj\<rparr>)
                                                      (Contents page),
                                          Quiet = Some True\<rparr>\<rparr>]) @
     (case NextContinuationToken page of
        None \<Rightarrow> []
      | Some next \<Rightarrow> expectedCalls b pfx (Some next) pages)"

fun pagesRead :: "ListObjectsV2Output list \<Rightarrow> ListObjectsV2Output list" where
  "pagesRead [] = []"
| "pagesRead (page # pages) =
     page # (case NextContinuationToken page of None \<Rightarrow> [] | Some next \<Rightarrow> pagesRead pages)"




text \<open>
  The listing request of an iteration of the loop of \<open>Cleanup\<close>, and the delete
  request for a page.
\<close>

definition listInput :: "'s Transport \<Rightarrow> string \<Rightarrow> string option \<Rightarrow> ListObjectsV2Input" where
  "listInput t resolved tok =
     \<lparr>list_Bucket = Some (bucket t), list_Prefix = stringPointer resolved,
      list_ContinuationToken = tok\<rparr>"

definition deleteInput :: "'s Transport \<Rightarrow> ListObjectsV2Output \<Rightarrow> DeleteObjectsInput" where
  "deleteInput t page =
     \<lparr>del_Bucket = Some (bucket t),
      del_Delete = Some \<lparr>Objects = map (\<lambda>obj. \<lparr>oid_Key = obj_Key obj\<rparr>) (Contents page),
                         Quiet = Some True\<rparr>\<rparr>"

text \<open>
  The guard of a plan has passed, taking the client from the state \<open>s\<close> to the
  state \<open>s1\<close>: with overwriting enabled there is no guard and the state is the
  same; otherwise \<open>ensureAbsent\<close> has returned no error.
\<close>

definition guardPassed :: "Lib \<Rightarrow> 's Transport \<Rightarrow> FilePlan \<Rightarrow> 's \<Rightarrow> 's \<Rightarrow> bool" where
  "guardPassed L t plan s s1 \<longleftrightarrow>
     (if overwrite t then s1 = s else ensureAbsent L t (Key plan) s = (None, s1))"

text \<open>
  The put request the loop of \<open>Upload\<close> makes for a plan from the file that
  \<open>os.Open\<close> returned: the file as \<open>detectContentType\<close> left it, rewound to
  its start, with the content type found.
\<close>

definition putRequest :: "Lib \<Rightarrow> 's Transport \<Rightarrow> FilePlan \<Rightarrow> File \<Rightarrow> PutObjectInput" where
  "putRequest L t plan file =
     \<lparr>put_Bucket = Some (bucket t), put_Key = Some (Key plan),
      put_Body = (snd (detectContentType L (Source plan) file))\<lparr>pos := 0\<rparr>,
      put_ContentType = stringPointer (fst (detectContentType L (Source plan) file))\<rparr>"

text \<open>
  To state which pages the listing requests of a run return, an implementation of the
  client is wrapped into one that behaves the same and keeps, beside the state, the
  pages it has returned so far.
\<close>

definition withPagesClient :: "'s Client \<Rightarrow> ('s \<times> ListObjectsV2Output list) Client" where
  "withPagesClient c =
     \<lparr>HeadObject = (\<lambda>inp (s, pages).
        case HeadObject c inp s of (r, s') \<Rightarrow> (r, (s', pages))),
      ListObjectsV2 = (\<lambda>inp (s, pages).
        case ListObjectsV2 c inp s of
          (Inl e, s') \<Rightarrow> (Inl e, (s', pages))
        | (Inr page, s') \<Rightarrow> (Inr page, (s', pages @ [page]))),
      DeleteObjects = (\<lambda>inp (s, pages).
        case DeleteObjects c inp s of (r, s') \<Rightarrow> (r, (s', pages)))\<rparr>"

definition withPages :: "'s Transport \<Rightarrow> ('s \<times> ListObjectsV2Output list) Transport" where
  "withPages t =
     \<lparr>client = withPagesClient (client t),
      uploader = \<lparr>uploader_Upload = (\<lambda>inp (s, pages).
        case uploader_Upload (uploader t) inp s of (r, s') \<Rightarrow> (r, (s', pages)))\<rparr>,
      bucket = bucket t, overwrite = overwrite t\<rparr>"

text \<open>
  The keys of the objects of a list of pages, and the keys the delete requests of a log
  name, both in order.
\<close>

definition listedKeys :: "ListObjectsV2Output list \<Rightarrow> string option list" where
  "listedKeys pages = concat (map (\<lambda>page. map obj_Key (Contents page)) pages)"

definition namedKeys :: "call list \<Rightarrow> string option list" where
  "namedKeys log = concat (map deletedKeys (deleteCalls log))"

section \<open>Properties of the key builder\<close>

lemma spaceRun_Nil: "spaceRun []"
  unfolding spaceRun_def by (rule exI[of _ "[]"]) simp

lemma spaceRun_append: "spaceRun a \<Longrightarrow> spaceRun b \<Longrightarrow> spaceRun (a @ b)"
proof -
  assume "spaceRun a" "spaceRun b"
  then obtain u v where "set u \<subseteq> set whiteSpace" "a = concat u"
    "set v \<subseteq> set whiteSpace" "b = concat v" unfolding spaceRun_def by blast
  then have "set (u @ v) \<subseteq> set whiteSpace \<and> a @ b = concat (u @ v)" by simp
  then show ?thesis unfolding spaceRun_def by blast
qed

lemma spaceRun_single: "w \<in> set whiteSpace \<Longrightarrow> spaceRun w"
  unfolding spaceRun_def by (rule exI[of _ "[w]"]) simp

lemma TrimLeftSpace_split:
  "\<exists>l. s = l @ TrimLeftSpace s \<and> spaceRun l \<and> leadingSpace (TrimLeftSpace s) = None"
proof (induction s rule: TrimLeftSpace.induct)
  case (1 s)
  show ?case
  proof (cases "leadingSpace s")
    case None
    then have "TrimLeftSpace s = s" by (simp add: TrimLeftSpace.simps[of s])
    then have "s = [] @ TrimLeftSpace s \<and> spaceRun [] \<and> leadingSpace (TrimLeftSpace s) = None"
      using None spaceRun_Nil by simp
    then show ?thesis by blast
  next
    case (Some w)
    let ?d = "drop (length w) s"
    from 1[OF Some] obtain l where l: "?d = l @ TrimLeftSpace ?d"
      "spaceRun l" "leadingSpace (TrimLeftSpace ?d) = None" by blast
    have eq: "TrimLeftSpace s = TrimLeftSpace ?d"
      using Some by (simp add: TrimLeftSpace.simps[of s])
    have "s = take (length w) s @ ?d" by simp
    then have "s = w @ ?d" using leadingSpace_Some(2)[OF Some] by simp
    then have "s = w @ l @ TrimLeftSpace s" using l(1) eq by simp
    then have "s = (w @ l) @ TrimLeftSpace s" by simp
    moreover have "spaceRun (w @ l)"
      using leadingSpace_Some(1)[OF Some] l(2) by (simp add: spaceRun_append spaceRun_single)
    moreover have "leadingSpace (TrimLeftSpace s) = None" using l(3) eq by simp
    ultimately show ?thesis by blast
  qed
qed

lemma TrimRightSpace_split:
  "\<exists>r. s = TrimRightSpace s @ r \<and> spaceRun r \<and> trailingSpace (TrimRightSpace s) = None"
proof (induction s rule: TrimRightSpace.induct)
  case (1 s)
  show ?case
  proof (cases "trailingSpace s")
    case None
    then have "TrimRightSpace s = s" by (simp add: TrimRightSpace.simps[of s])
    then have "s = TrimRightSpace s @ [] \<and> spaceRun [] \<and> trailingSpace (TrimRightSpace s) = None"
      using None spaceRun_Nil by simp
    then show ?thesis by blast
  next
    case (Some w)
    let ?t = "take (length s - length w) s"
    from 1[OF Some] obtain r where r: "?t = TrimRightSpace ?t @ r"
      "spaceRun r" "trailingSpace (TrimRightSpace ?t) = None" by blast
    have eq: "TrimRightSpace s = TrimRightSpace ?t"
      using Some by (simp add: TrimRightSpace.simps[of s])
    have "s = ?t @ drop (length s - length w) s" by simp
    then have "s = ?t @ w" using trailingSpace_Some(2)[OF Some] by simp
    then have "s = (TrimRightSpace s @ r) @ w" using r(1) eq by simp
    then have "s = TrimRightSpace s @ (r @ w)" by simp
    moreover have "spaceRun (r @ w)"
      using trailingSpace_Some(1)[OF Some] r(2) by (simp add: spaceRun_append spaceRun_single)
    moreover have "trailingSpace (TrimRightSpace s) = None" using r(3) eq by simp
    ultimately show ?thesis by blast
  qed
qed

lemma leadingSpace_None_prefix:
  assumes "leadingSpace (a @ b) = None" shows "leadingSpace a = None"
proof (rule ccontr)
  assume "leadingSpace a \<noteq> None"
  then obtain w where w: "leadingSpace a = Some w" by blast
  have "take (length w) (a @ b) = w"
    using leadingSpace_Some(2)[OF w] leadingSpace_Some(3)[OF w] by simp
  then have "HasPrefix (a @ b) w" by (simp add: HasPrefix_def)
  with leadingSpace_Some(1)[OF w] assms show False
    unfolding leadingSpace_def find_None_iff by blast
qed

lemma TrimSpace_split:
  "\<exists>l r. s = l @ TrimSpace s @ r \<and> spaceRun l \<and> spaceRun r \<and>
     leadingSpace (TrimSpace s) = None \<and> trailingSpace (TrimSpace s) = None"
proof -
  obtain l where l: "s = l @ TrimLeftSpace s" "spaceRun l" "leadingSpace (TrimLeftSpace s) = None"
    using TrimLeftSpace_split by blast
  obtain r where r: "TrimLeftSpace s = TrimSpace s @ r" "spaceRun r" "trailingSpace (TrimSpace s) = None"
    using TrimRightSpace_split[of "TrimLeftSpace s"] unfolding TrimSpace_def by blast
  have "leadingSpace (TrimSpace s @ r) = None" using l(3) r(1) by simp
  then have "leadingSpace (TrimSpace s) = None" by (rule leadingSpace_None_prefix)
  moreover have "s = l @ TrimSpace s @ r" using l(1) r(1) by simp
  ultimately show ?thesis using l(2) r(2) r(3) by blast
qed

lemma Trim_split:
  "\<exists>l r. s = l @ Trim s cs @ r \<and> set l \<subseteq> set cs \<and> set r \<subseteq> set cs \<and>
     (Trim s cs \<noteq> [] \<longrightarrow> hd (Trim s cs) \<notin> set cs \<and> last (Trim s cs) \<notin> set cs)"
proof -
  let ?P = "\<lambda>c. c \<in> set cs"
  let ?t = "TrimRight s cs"
  have "rev (dropWhile ?P (rev s)) @ rev (takeWhile ?P (rev s)) =
        rev (takeWhile ?P (rev s) @ dropWhile ?P (rev s))" by (simp only: rev_append)
  also have "\<dots> = s" by simp
  finally have 1: "s = ?t @ rev (takeWhile ?P (rev s))"
    unfolding TrimRight_def by simp
  have 2: "?t = takeWhile ?P ?t @ Trim s cs"
    unfolding Trim_def TrimLeft_def by simp
  have 3: "set (takeWhile ?P ?t) \<subseteq> set cs" "set (rev (takeWhile ?P (rev s))) \<subseteq> set cs"
    by (auto dest: set_takeWhileD)
  have 4: "Trim s cs \<noteq> [] \<Longrightarrow> hd (Trim s cs) \<notin> set cs"
    unfolding Trim_def TrimLeft_def using hd_dropWhile by blast
  have 5: "?t \<noteq> [] \<Longrightarrow> last ?t \<notin> set cs"
  proof -
    assume "?t \<noteq> []"
    then have ne: "dropWhile ?P (rev s) \<noteq> []" unfolding TrimRight_def by simp
    then have "hd (dropWhile ?P (rev s)) \<notin> set cs" using hd_dropWhile by blast
    then show ?thesis unfolding TrimRight_def using ne by (simp add: last_rev)
  qed
  have 6: "Trim s cs \<noteq> [] \<Longrightarrow> last (Trim s cs) \<notin> set cs"
  proof -
    assume ne: "Trim s cs \<noteq> []"
    then have "last ?t = last (Trim s cs)" using 2 by (metis last_appendR)
    moreover have "?t \<noteq> []" using 2 ne by auto
    ultimately show ?thesis using 5 by simp
  qed
  have "s = takeWhile ?P ?t @ Trim s cs @ rev (takeWhile ?P (rev s))"
    using 1 2 by (metis append_assoc)
  then show ?thesis using 3 4 6 by blast
qed


lemma normalizePrefix_split:
  "\<exists>ws l r ws'. pfx = ws @ l @ normalizePrefix pfx @ r @ ws' \<and>
      spaceRun ws \<and> spaceRun ws' \<and> set l \<subseteq> {CHR ''/''} \<and> set r \<subseteq> {CHR ''/''} \<and>
      leadingSpace (l @ normalizePrefix pfx @ r) = None \<and>
      trailingSpace (l @ normalizePrefix pfx @ r) = None \<and>
      \<not> HasPrefix (normalizePrefix pfx) ''/'' \<and> \<not> HasSuffix (normalizePrefix pfx) ''/''"
proof -
  let ?n = "normalizePrefix pfx"
  obtain ws ws' where t: "pfx = ws @ TrimSpace pfx @ ws'" "spaceRun ws" "spaceRun ws'"
    "leadingSpace (TrimSpace pfx) = None" "trailingSpace (TrimSpace pfx) = None"
    using TrimSpace_split by blast
  have n: "?n = Trim (TrimSpace pfx) ''/''" by (simp add: normalizePrefix_def)
  obtain l r where s: "TrimSpace pfx = l @ ?n @ r" "set l \<subseteq> set ''/''" "set r \<subseteq> set ''/''"
    "?n \<noteq> [] \<longrightarrow> hd ?n \<notin> set ''/'' \<and> last ?n \<notin> set ''/''"
    using Trim_split[of "TrimSpace pfx" "''/''"] unfolding n by blast
  have hp: "\<not> HasPrefix ?n ''/''"
  proof
    assume "HasPrefix ?n ''/''"
    then have "take 1 ?n = ''/''" by (simp add: HasPrefix_def)
    then have "?n \<noteq> [] \<and> hd ?n = CHR ''/''" by (cases ?n) auto
    with s(4) show False by simp
  qed
  have hs: "\<not> HasSuffix ?n ''/''"
  proof
    assume "HasSuffix ?n ''/''"
    then have d: "1 \<le> length ?n" "drop (length ?n - 1) ?n = ''/''" by (simp_all add: HasSuffix_def)
    then have ne: "?n \<noteq> []" by auto
    have "?n = butlast ?n @ [last ?n]" using ne by simp
    then have "drop (length ?n - 1) ?n = [last ?n]"
      by (metis append_eq_conv_conj length_butlast)
    with d(2) have "last ?n = CHR ''/''" by simp
    with s(4) ne show False by simp
  qed
  have "pfx = ws @ l @ ?n @ r @ ws'" using t(1) s(1) by simp
  moreover have "leadingSpace (l @ ?n @ r) = None" "trailingSpace (l @ ?n @ r) = None"
    using t(4,5) s(1) by simp_all
  moreover have "set l \<subseteq> {CHR ''/''}" "set r \<subseteq> {CHR ''/''}" using s(2,3) by simp_all
  ultimately show ?thesis using t(2,3) hp hs by blast
qed

lemma normalizePrefix_Nil: "normalizePrefix [] = []"
  by code_simp

lemma joinKey_cases:
  "joinKey pfx rel =
     (if normalizePrefix rel = [] then pfx
      else if pfx = [] then normalizePrefix rel
      else pfx @ ''/'' @ normalizePrefix rel)"
  by (simp add: joinKey_def normalizePrefix_def Let_def)

text \<open>
  Claim C1. \<open>normalizePrefix\<close> maps the empty string to itself, and for every
  string it returns what is left after the white space around the string is removed
  first and the slashes around the rest are removed next: the argument is white space,
  slashes, the result, slashes, white space, in this order, where the part between the
  two runs of white space neither starts nor ends with a white-space rune and the
  result neither starts nor ends with a slash. \<open>joinKey\<close> trims its relative path
  in the same way (white space, then slashes) and returns the prefix when nothing is
  left of the path, the trimmed path when the prefix is empty, and otherwise the
  prefix, a slash and the trimmed path. Both are functions of their arguments alone, so
  equal arguments give equal keys.
\<close>

theorem key_builder:
  "normalizePrefix [] = [] \<and>
   (\<exists>ws l r ws'. pfx = ws @ l @ normalizePrefix pfx @ r @ ws' \<and>
      spaceRun ws \<and> spaceRun ws' \<and> set l \<subseteq> {CHR ''/''} \<and> set r \<subseteq> {CHR ''/''} \<and>
      leadingSpace (l @ normalizePrefix pfx @ r) = None \<and>
      trailingSpace (l @ normalizePrefix pfx @ r) = None \<and>
      \<not> HasPrefix (normalizePrefix pfx) ''/'' \<and> \<not> HasSuffix (normalizePrefix pfx) ''/'') \<and>
   joinKey pfx rel =
     (if Trim (TrimSpace rel) ''/'' = [] then pfx
      else if pfx = [] then Trim (TrimSpace rel) ''/''
      else pfx @ ''/'' @ Trim (TrimSpace rel) ''/'')"
  using normalizePrefix_Nil normalizePrefix_split[of pfx] joinKey_cases[of pfx rel]
  by (simp add: normalizePrefix_def)

theorem key_builder_witness:
  "joinKey (normalizePrefix '' /artifact/ '') '' /sub/data.txt '' = ''artifact/sub/data.txt'' \<and>
   joinKey [] ''data.txt'' = ''data.txt'' \<and>
   joinKey ''artifact'' '' / '' = ''artifact''"
proof -
  have e: "normalizePrefix '' /artifact/ '' = ''artifact''"
    "Trim (TrimSpace '' /sub/data.txt '') ''/'' = ''sub/data.txt''"
    "Trim (TrimSpace ''data.txt'') ''/'' = ''data.txt''"
    "Trim (TrimSpace '' / '') ''/'' = []"
    by code_simp+
  show ?thesis
    using key_builder[of "''artifact''" "'' /sub/data.txt ''"]
      key_builder[of "[]" "''data.txt''"] key_builder[of "''artifact''" "'' / ''"]
    by (simp add: e)
qed

section \<open>Properties of the existence guard\<close>

lemma chain_self: "e \<in> set (chain e)"
  by (cases e) simp_all

lemma ensureAbsent_recording:
  "ensureAbsent L (recording t) key (s, log) =
     (case ensureAbsent L t key s of
        (r, s') \<Rightarrow> (r, (s', log @ [HeadCall \<lparr>head_Bucket = Some (bucket t), head_Key = Some key\<rparr>])))"
  by (simp add: ensureAbsent_def recording_def recordingClient_def split: prod.splits option.splits)

lemma ensureAbsent_log:
  "snd (snd (ensureAbsent L (recording t) key (s, log))) =
     log @ [HeadCall \<lparr>head_Bucket = Some (bucket t), head_Key = Some key\<rparr>]"
  by (simp add: ensureAbsent_recording split: prod.splits)

lemma ensureAbsent_outcomes:
  "(HeadObject (client t) \<lparr>head_Bucket = Some (bucket t), head_Key = Some key\<rparr> s = (None, s')
      \<longrightarrow> ensureAbsent L t key s = (Some (ErrObjectExists key), s')) \<and>
   (HeadObject (client t) \<lparr>head_Bucket = Some (bucket t), head_Key = Some key\<rparr> s = (Some e, s')
      \<and> isNotFound L (Some e)
      \<longrightarrow> ensureAbsent L t key s = (None, s')) \<and>
   (HeadObject (client t) \<lparr>head_Bucket = Some (bucket t), head_Key = Some key\<rparr> s = (Some e, s')
      \<and> \<not> isNotFound L (Some e)
      \<longrightarrow> ensureAbsent L t key s = (Some (ErrHead key e), s')
          \<and> Unwrap (ErrHead key e) = Some e \<and> errorsIs (ErrHead key e) e)"
  by (simp add: ensureAbsent_def errorsIs_def chain_self)

lemma isNotFound_recognised:
  "\<not> isNotFound L None \<and>
   (NotFound \<in> set (chain e) \<or> NoSuchKey \<in> set (chain e) \<longrightarrow> isNotFound L (Some e)) \<and>
   isNotFound L (Some (APIError code)) =
     (strings_ToLower L code \<in> {''notfound'', ''nosuchkey'', ''404'', ''no such key''})"
  by (simp add: isNotFound_def AsAPIError_def List.map_filter_simps)

lemma firstCode_split:
  "NotFound \<notin> set xs \<Longrightarrow> NoSuchKey \<notin> set xs \<Longrightarrow>
     (case List.map_filter apiErrorCode xs of [] \<Rightarrow> None | c # cs \<Rightarrow> Some c) = Some code \<longleftrightarrow>
     (\<exists>pre post. xs = pre @ APIError code # post \<and> (\<forall>x \<in> set pre. \<forall>c. x \<noteq> APIError c))"
proof (induction xs)
  case Nil
  then show ?case by (simp add: List.map_filter_simps)
next
  case (Cons x xs)
  show ?case
  proof (cases "\<exists>c. x = APIError c")
    case True
    then obtain c where c: "x = APIError c" by blast
    have "(\<exists>pre post. APIError c # xs = pre @ APIError code # post \<and>
             (\<forall>x \<in> set pre. \<forall>c. x \<noteq> APIError c)) \<longleftrightarrow> c = code"
    proof
      assume "\<exists>pre post. APIError c # xs = pre @ APIError code # post \<and>
             (\<forall>x \<in> set pre. \<forall>c. x \<noteq> APIError c)"
      then obtain pre post where p: "APIError c # xs = pre @ APIError code # post"
        "\<forall>x \<in> set pre. \<forall>c. x \<noteq> APIError c" by blast
      show "c = code"
      proof (cases pre)
        case Nil
        then show ?thesis using p(1) by simp
      next
        case (Cons y ys)
        then have "y = APIError c" using p(1) by simp
        then show ?thesis using p(2) Cons by simp
      qed
    next
      assume "c = code"
      then have "APIError c # xs = [] @ APIError code # xs \<and>
             (\<forall>x \<in> set []. \<forall>c. x \<noteq> APIError c)" by simp
      then show "\<exists>pre post. APIError c # xs = pre @ APIError code # post \<and>
             (\<forall>x \<in> set pre. \<forall>c. x \<noteq> APIError c)" by blast
    qed
    then show ?thesis using c by (simp add: List.map_filter_simps)
  next
    case False
    have n: "apiErrorCode x = None" using False Cons.prems by (cases x) simp_all
    have ih: "(case List.map_filter apiErrorCode xs of [] \<Rightarrow> None | c # cs \<Rightarrow> Some c) = Some code \<longleftrightarrow>
       (\<exists>pre post. xs = pre @ APIError code # post \<and> (\<forall>x \<in> set pre. \<forall>c. x \<noteq> APIError c))"
      using Cons.IH Cons.prems by simp
    have "(\<exists>pre post. x # xs = pre @ APIError code # post \<and> (\<forall>x \<in> set pre. \<forall>c. x \<noteq> APIError c)) \<longleftrightarrow>
          (\<exists>pre post. xs = pre @ APIError code # post \<and> (\<forall>x \<in> set pre. \<forall>c. x \<noteq> APIError c))"
    proof
      assume "\<exists>pre post. x # xs = pre @ APIError code # post \<and> (\<forall>x \<in> set pre. \<forall>c. x \<noteq> APIError c)"
      then obtain pre post where p: "x # xs = pre @ APIError code # post"
        "\<forall>x \<in> set pre. \<forall>c. x \<noteq> APIError c" by blast
      then obtain ys where ys: "pre = x # ys" using False by (cases pre) auto
      then have "xs = ys @ APIError code # post \<and> (\<forall>x \<in> set ys. \<forall>c. x \<noteq> APIError c)"
        using p by simp
      then show "\<exists>pre post. xs = pre @ APIError code # post \<and> (\<forall>x \<in> set pre. \<forall>c. x \<noteq> APIError c)"
        by blast
    next
      assume "\<exists>pre post. xs = pre @ APIError code # post \<and> (\<forall>x \<in> set pre. \<forall>c. x \<noteq> APIError c)"
      then obtain pre post where p: "xs = pre @ APIError code # post"
        "\<forall>x \<in> set pre. \<forall>c. x \<noteq> APIError c" by blast
      then have "x # xs = (x # pre) @ APIError code # post \<and>
          (\<forall>y \<in> set (x # pre). \<forall>c. y \<noteq> APIError c)" using False by simp
      then show "\<exists>pre post. x # xs = pre @ APIError code # post \<and> (\<forall>x \<in> set pre. \<forall>c. x \<noteq> APIError c)"
        by blast
    qed
    then show ?thesis using ih n by (simp add: List.map_filter_simps)
  qed
qed

lemma isNotFound_chain:
  "isNotFound L err \<longleftrightarrow>
     (\<exists>e. err = Some e \<and>
        (NotFound \<in> set (chain e) \<or> NoSuchKey \<in> set (chain e) \<or>
         (\<exists>pre code post. chain e = pre @ APIError code # post \<and>
            (\<forall>x \<in> set pre. \<forall>c. x \<noteq> APIError c) \<and>
            strings_ToLower L code \<in> {''notfound'', ''nosuchkey'', ''404'', ''no such key''})))"
proof (cases err)
  case None
  then show ?thesis by (simp add: isNotFound_def)
next
  case (Some e)
  show ?thesis
  proof (cases "NotFound \<in> set (chain e) \<or> NoSuchKey \<in> set (chain e)")
    case True
    then show ?thesis using Some by (auto simp: isNotFound_def)
  next
    case False
    then have f: "NotFound \<notin> set (chain e)" "NoSuchKey \<notin> set (chain e)" by simp_all
    have a: "AsAPIError e = Some code \<longleftrightarrow>
       (\<exists>pre post. chain e = pre @ APIError code # post \<and> (\<forall>x \<in> set pre. \<forall>c. x \<noteq> APIError c))" for code
      unfolding AsAPIError_def using firstCode_split[OF f] by simp
    have "isNotFound L (Some e) \<longleftrightarrow>
       (\<exists>code. AsAPIError e = Some code \<and>
          strings_ToLower L code \<in> {''notfound'', ''nosuchkey'', ''404'', ''no such key''})"
      using f by (simp add: isNotFound_def split: option.splits)
    then show ?thesis using Some f a by blast
  qed
qed

lemma chain_Unwrap: "chain e = e # (case Unwrap e of None \<Rightarrow> [] | Some e' \<Rightarrow> chain e')"
  by (cases e) simp_all

lemma isNotFound_other:
  "\<forall>x \<in> set (chain e). x \<noteq> NotFound \<and> x \<noteq> NoSuchKey \<and> (\<forall>c. x \<noteq> APIError c) \<Longrightarrow>
     \<not> isNotFound L (Some e)"
  unfolding isNotFound_chain by auto

text \<open>
  Claim C4. \<open>ensureAbsent\<close> sends one \<open>HeadObject\<close> request for the key and
  has three outcomes. When the probe returns no error the object exists, and the guard
  fails with the error "object ... already exists and overwrite is disabled", which
  names the key. When the probe returns an error that \<open>isNotFound\<close> recognises,
  the guard succeeds. When it returns any other error, the guard fails with the error
  "failed to check if ... exists", which wraps the error of the probe.
  \<open>isNotFound\<close> recognises an error exactly when the chain of the error (the error,
  what it wraps, what that wraps, and so on) holds a typed \<open>NotFound\<close> or
  \<open>NoSuchKey\<close>, or when the first API error of the chain has a code that in lower
  case is \<open>notfound\<close>, \<open>nosuchkey\<close>, \<open>404\<close> or \<open>no such key\<close>;
  \<open>nil\<close> is not recognised. So an API not-found error makes the guard succeed also
  when another error wraps it, and an error whose chain holds no API error at all is
  surfaced in the wrapping error.
\<close>

theorem existence_guard:
  "(HeadObject (client t) \<lparr>head_Bucket = Some (bucket t), head_Key = Some key\<rparr> s = (None, s')
      \<longrightarrow> ensureAbsent L t key s = (Some (ErrObjectExists key), s')) \<and>
   (HeadObject (client t) \<lparr>head_Bucket = Some (bucket t), head_Key = Some key\<rparr> s = (Some e, s')
      \<and> isNotFound L (Some e)
      \<longrightarrow> ensureAbsent L t key s = (None, s')) \<and>
   (HeadObject (client t) \<lparr>head_Bucket = Some (bucket t), head_Key = Some key\<rparr> s = (Some e, s')
      \<and> \<not> isNotFound L (Some e)
      \<longrightarrow> ensureAbsent L t key s = (Some (ErrHead key e), s')
          \<and> Unwrap (ErrHead key e) = Some e \<and> errorsIs (ErrHead key e) e) \<and>
   snd (snd (ensureAbsent L (recording t) key (s, log))) =
     log @ [HeadCall \<lparr>head_Bucket = Some (bucket t), head_Key = Some key\<rparr>] \<and>
   \<not> isNotFound L None \<and>
   (NotFound \<in> set (chain e) \<or> NoSuchKey \<in> set (chain e) \<longrightarrow> isNotFound L (Some e)) \<and>
   isNotFound L (Some (APIError code)) =
     (strings_ToLower L code \<in> {''notfound'', ''nosuchkey'', ''404'', ''no such key''}) \<and>
   isNotFound L err =
     (\<exists>e. err = Some e \<and>
        (NotFound \<in> set (chain e) \<or> NoSuchKey \<in> set (chain e) \<or>
         (\<exists>pre code post. chain e = pre @ APIError code # post \<and>
            (\<forall>x \<in> set pre. \<forall>c. x \<noteq> APIError c) \<and>
            strings_ToLower L code \<in> {''notfound'', ''nosuchkey'', ''404'', ''no such key''}))) \<and>
   chain e = e # (case Unwrap e of None \<Rightarrow> [] | Some e' \<Rightarrow> chain e') \<and>
   (HeadObject (client t) \<lparr>head_Bucket = Some (bucket t), head_Key = Some key\<rparr> s = (Some e, s')
      \<and> (NotFound \<in> set (chain e) \<or> NoSuchKey \<in> set (chain e) \<or>
         (\<exists>pre code post. chain e = pre @ APIError code # post \<and>
            (\<forall>x \<in> set pre. \<forall>c. x \<noteq> APIError c) \<and>
            strings_ToLower L code \<in> {''notfound'', ''nosuchkey'', ''404'', ''no such key''}))
      \<longrightarrow> ensureAbsent L t key s = (None, s')) \<and>
   (HeadObject (client t) \<lparr>head_Bucket = Some (bucket t), head_Key = Some key\<rparr> s = (Some e, s')
      \<and> (\<forall>x \<in> set (chain e). x \<noteq> NotFound \<and> x \<noteq> NoSuchKey \<and> (\<forall>c. x \<noteq> APIError c))
      \<longrightarrow> ensureAbsent L t key s = (Some (ErrHead key e), s'))"
proof -
  let ?H = "HeadObject (client t) \<lparr>head_Bucket = Some (bucket t), head_Key = Some key\<rparr> s"
  let ?rec = "\<lambda>e. NotFound \<in> set (chain e) \<or> NoSuchKey \<in> set (chain e) \<or>
         (\<exists>pre code post. chain e = pre @ APIError code # post \<and>
            (\<forall>x \<in> set pre. \<forall>c. x \<noteq> APIError c) \<and>
            strings_ToLower L code \<in> {''notfound'', ''nosuchkey'', ''404'', ''no such key''})"
  note o = ensureAbsent_outcomes[of t key s s' L e]
  have 1: "?H = (None, s') \<longrightarrow> ensureAbsent L t key s = (Some (ErrObjectExists key), s')"
    using o by blast
  have 2: "?H = (Some e, s') \<and> isNotFound L (Some e) \<longrightarrow> ensureAbsent L t key s = (None, s')"
    using o by blast
  have 3: "?H = (Some e, s') \<and> \<not> isNotFound L (Some e)
      \<longrightarrow> ensureAbsent L t key s = (Some (ErrHead key e), s')
          \<and> Unwrap (ErrHead key e) = Some e \<and> errorsIs (ErrHead key e) e"
    using o by blast
  have 4: "snd (snd (ensureAbsent L (recording t) key (s, log))) =
     log @ [HeadCall \<lparr>head_Bucket = Some (bucket t), head_Key = Some key\<rparr>]"
    by (rule ensureAbsent_log)
  note r = isNotFound_recognised[of L e code]
  have 5: "\<not> isNotFound L None" using r by blast
  have 6: "NotFound \<in> set (chain e) \<or> NoSuchKey \<in> set (chain e) \<longrightarrow> isNotFound L (Some e)"
    using r by blast
  have 7: "isNotFound L (Some (APIError code)) =
     (strings_ToLower L code \<in> {''notfound'', ''nosuchkey'', ''404'', ''no such key''})"
    using r by blast
  have 8: "isNotFound L err = (\<exists>e. err = Some e \<and> ?rec e)"
    by (rule isNotFound_chain)
  have 9: "chain e = e # (case Unwrap e of None \<Rightarrow> [] | Some e' \<Rightarrow> chain e')"
    by (rule chain_Unwrap)
  have "?rec e \<Longrightarrow> isNotFound L (Some e)" using isNotFound_chain[of L "Some e"] by simp
  then have 10: "?H = (Some e, s') \<and> ?rec e \<longrightarrow> ensureAbsent L t key s = (None, s')"
    using 2 by blast
  have 11: "?H = (Some e, s')
      \<and> (\<forall>x \<in> set (chain e). x \<noteq> NotFound \<and> x \<noteq> NoSuchKey \<and> (\<forall>c. x \<noteq> APIError c))
      \<longrightarrow> ensureAbsent L t key s = (Some (ErrHead key e), s')"
    using 3 isNotFound_other[of e L] by blast
  show ?thesis
    apply (intro conjI)
    apply (rule 1)
    apply (rule 2)
    apply (rule 3)
    apply (rule 4)
    apply (rule 5)
    apply (rule 6)
    apply (rule 7)
    apply (rule 8)
    apply (rule 9)
    apply (rule 10)
    apply (rule 11)
    done
qed

theorem existence_guard_witness:
  "ensureAbsent testLib (fakeTransport ''bucket'' False) ''missing''
     (fake0\<lparr>headErr := Some (APIError ''NoSuchKey'')\<rparr>, stub0) =
     (None, (fake0\<lparr>headErr := Some (APIError ''NoSuchKey''), headCalls := [''missing'']\<rparr>, stub0)) \<and>
   ensureAbsent testLib (fakeTransport ''bucket'' False) ''existing.txt'' (fake0, stub0) =
     (Some (ErrObjectExists ''existing.txt''), (fake0\<lparr>headCalls := [''existing.txt'']\<rparr>, stub0)) \<and>
   ensureAbsent testLib (fakeTransport ''bucket'' False) ''k''
     (fake0\<lparr>headErr := Some (ErrorString ''boom'')\<rparr>, stub0) =
     (Some (ErrHead ''k'' (ErrorString ''boom'')),
      (fake0\<lparr>headErr := Some (ErrorString ''boom''), headCalls := [''k'']\<rparr>, stub0)) \<and>
   ensureAbsent testLib (fakeTransport ''bucket'' False) ''w''
     (fake0\<lparr>headErr := Some (Wrapped ''operation error S3: HeadObject'' (APIError ''NotFound''))\<rparr>, stub0) =
     (None, (fake0\<lparr>headErr := Some (Wrapped ''operation error S3: HeadObject'' (APIError ''NotFound'')),
                    headCalls := [''w'']\<rparr>, stub0)) \<and>
   ensureAbsent testLib (fakeTransport ''bucket'' False) ''d''
     (fake0\<lparr>headErr := Some (Wrapped ''operation error S3: HeadObject'' (APIError ''AccessDenied''))\<rparr>, stub0) =
     (Some (ErrHead ''d'' (Wrapped ''operation error S3: HeadObject'' (APIError ''AccessDenied''))),
      (fake0\<lparr>headErr := Some (Wrapped ''operation error S3: HeadObject'' (APIError ''AccessDenied'')),
             headCalls := [''d'']\<rparr>, stub0))"
proof -
  let ?t = "fakeTransport ''bucket'' False"
  let ?w = "Wrapped ''operation error S3: HeadObject'' (APIError ''NotFound'')"
  let ?d = "Wrapped ''operation error S3: HeadObject'' (APIError ''AccessDenied'')"
  have l: "asciiLower ''NoSuchKey'' = ''nosuchkey''" by (simp add: asciiLower_def)
  have l2: "strings_ToLower testLib ''NotFound'' = ''notfound''" by (simp add: testLib_def asciiLower_def)
  have 1: "isNotFound testLib (Some (APIError ''NoSuchKey''))"
    using existence_guard[where L = testLib and code = "''NoSuchKey''" and e = EOF
        and t = ?t and key = "[]" and log = "[]" and err = None
        and s = "(fake0, stub0)" and s' = "(fake0, stub0)"]
    by (simp add: testLib_def l)
  have 2: "\<not> isNotFound testLib (Some (ErrorString ''boom''))"
    by (simp add: isNotFound_def AsAPIError_def List.map_filter_simps)
  have "chain ?w = [?w] @ APIError ''NotFound'' # [] \<and> (\<forall>x \<in> set [?w]. \<forall>c. x \<noteq> APIError c) \<and>
      strings_ToLower testLib ''NotFound'' \<in> {''notfound'', ''nosuchkey'', ''404'', ''no such key''}"
    using l2 by simp
  then have 3: "\<exists>pre code post. chain ?w = pre @ APIError code # post \<and>
      (\<forall>x \<in> set pre. \<forall>c. x \<noteq> APIError c) \<and>
      strings_ToLower testLib code \<in> {''notfound'', ''nosuchkey'', ''404'', ''no such key''}"
    by blast
  have 4: "\<not> isNotFound testLib (Some ?d)"
    by (simp add: isNotFound_def AsAPIError_def List.map_filter_simps testLib_def asciiLower_def)
  have a: "ensureAbsent testLib ?t ''missing''
     (fake0\<lparr>headErr := Some (APIError ''NoSuchKey'')\<rparr>, stub0) =
     (None, (fake0\<lparr>headErr := Some (APIError ''NoSuchKey''), headCalls := [''missing'']\<rparr>, stub0))"
    using 1
      existence_guard[where L = testLib and t = ?t and err = None and log = "[]" and code = "[]"
        and key = "''missing''" and s = "(fake0\<lparr>headErr := Some (APIError ''NoSuchKey'')\<rparr>, stub0)"
        and s' = "(fake0\<lparr>headErr := Some (APIError ''NoSuchKey''), headCalls := [''missing'']\<rparr>, stub0)"
        and e = "APIError ''NoSuchKey''"]
    by (simp add: fakeTransport_def NewTransport_def fake_HeadObject_def fake0_def stub0_def
          ToString_def Let_def)
  have b: "ensureAbsent testLib ?t ''existing.txt'' (fake0, stub0) =
     (Some (ErrObjectExists ''existing.txt''), (fake0\<lparr>headCalls := [''existing.txt'']\<rparr>, stub0))"
    using existence_guard[where L = testLib and t = ?t and err = None and log = "[]" and code = "[]"
        and key = "''existing.txt''" and s = "(fake0, stub0)" and e = EOF
        and s' = "(fake0\<lparr>headCalls := [''existing.txt'']\<rparr>, stub0)"]
    by (simp add: fakeTransport_def NewTransport_def fake_HeadObject_def fake0_def stub0_def
          ToString_def Let_def)
  have c: "ensureAbsent testLib ?t ''k''
     (fake0\<lparr>headErr := Some (ErrorString ''boom'')\<rparr>, stub0) =
     (Some (ErrHead ''k'' (ErrorString ''boom'')),
      (fake0\<lparr>headErr := Some (ErrorString ''boom''), headCalls := [''k'']\<rparr>, stub0))"
    using existence_guard[where L = testLib and t = ?t and err = None and log = "[]" and code = "[]"
        and key = "''k''" and s = "(fake0\<lparr>headErr := Some (ErrorString ''boom'')\<rparr>, stub0)"
        and s' = "(fake0\<lparr>headErr := Some (ErrorString ''boom''), headCalls := [''k'']\<rparr>, stub0)"
        and e = "ErrorString ''boom''"]
    by (simp add: fakeTransport_def NewTransport_def fake_HeadObject_def fake0_def stub0_def
          ToString_def Let_def)
  have hw: "HeadObject (client ?t) \<lparr>head_Bucket = Some (bucket ?t), head_Key = Some ''w''\<rparr>
        (fake0\<lparr>headErr := Some ?w\<rparr>, stub0) =
      (Some ?w, (fake0\<lparr>headErr := Some ?w, headCalls := [''w'']\<rparr>, stub0))"
    by (simp add: fakeTransport_def NewTransport_def fake_HeadObject_def fake0_def stub0_def
          ToString_def Let_def)
  have d: "ensureAbsent testLib ?t ''w'' (fake0\<lparr>headErr := Some ?w\<rparr>, stub0) =
     (None, (fake0\<lparr>headErr := Some ?w, headCalls := [''w'']\<rparr>, stub0))"
    using hw 3
      existence_guard[where L = testLib and t = ?t and err = None and log = "[]" and code = "[]"
        and key = "''w''" and s = "(fake0\<lparr>headErr := Some ?w\<rparr>, stub0)"
        and s' = "(fake0\<lparr>headErr := Some ?w, headCalls := [''w'']\<rparr>, stub0)"
        and e = ?w]
    by blast
  have hd: "HeadObject (client ?t) \<lparr>head_Bucket = Some (bucket ?t), head_Key = Some ''d''\<rparr>
        (fake0\<lparr>headErr := Some ?d\<rparr>, stub0) =
      (Some ?d, (fake0\<lparr>headErr := Some ?d, headCalls := [''d'']\<rparr>, stub0))"
    by (simp add: fakeTransport_def NewTransport_def fake_HeadObject_def fake0_def stub0_def
          ToString_def Let_def)
  have e: "ensureAbsent testLib ?t ''d'' (fake0\<lparr>headErr := Some ?d\<rparr>, stub0) =
     (Some (ErrHead ''d'' ?d), (fake0\<lparr>headErr := Some ?d, headCalls := [''d'']\<rparr>, stub0))"
    using hd 4
      existence_guard[where L = testLib and t = ?t and err = None and log = "[]" and code = "[]"
        and key = "''d''" and s = "(fake0\<lparr>headErr := Some ?d\<rparr>, stub0)"
        and s' = "(fake0\<lparr>headErr := Some ?d, headCalls := [''d'']\<rparr>, stub0)"
        and e = ?d]
    by blast
  show ?thesis using a b c d e by blast
qed

section \<open>Properties of the transfer engine\<close>

lemma Read_content: "content (snd (Read n f)) = content f"
  by (simp add: Read_def Let_def split: option.splits)

lemma detectContentType_content: "content (snd (detectContentType L p f)) = content f"
proof -
  obtain d e f' where r: "Read 512 f = ((d, e), f')" by (metis surj_pair)
  then have "content f' = content f" using Read_content[of 512 f] by simp
  then show ?thesis using r by (simp add: detectContentType_def Let_def split: option.splits)
qed

lemma SeekStart_None: "SeekStart f = (None, f') \<Longrightarrow> pos f' = 0 \<and> content f' = content f"
  by (auto simp: SeekStart_def split: option.splits)

lemma uploadPlan_calls:
  "\<exists>seg. snd (snd (uploadPlan L F (recording t) plan (s, log))) = log @ guardCalls t plan @ seg \<and>
     (seg = [] \<or> (\<exists>inp. seg = [PutCall inp] \<and> uploadsFile L F t plan inp)) \<and>
     ((\<exists>r. fst (uploadPlan L F (recording t) plan (s, log)) = Inr r) \<longrightarrow> seg \<noteq> [])"
proof (cases "overwrite t")
  case True
  show ?thesis
  proof (cases "os_Open F (Source plan)")
    case (Inl e)
    then show ?thesis using True
      by (simp add: uploadPlan_def recording_def guardCalls_def)
  next
    case (Inr fl)
    obtain ct f1 where d: "detectContentType L (Source plan) fl = (ct, f1)" by force
    obtain se f2 where k: "SeekStart f1 = (se, f2)" by force
    show ?thesis
    proof (cases se)
      case (Some e)
      then show ?thesis using True Inr d k
        by (simp add: uploadPlan_def recording_def guardCalls_def)
    next
      case None
      have c: "stream f2 = content fl"
        using SeekStart_None[of f1 f2] k None detectContentType_content[of L "Source plan" fl] d
        by (simp add: stream_def)
      let ?inp = "\<lparr>put_Bucket = Some (bucket t), put_Key = Some (Key plan), put_Body = f2,
                    put_ContentType = stringPointer ct\<rparr>"
      have ok: "uploadsFile L F t plan ?inp" using Inr c d by (simp add: uploadsFile_def)
      obtain r s' where u: "uploader_Upload (uploader t) ?inp s = (r, s')" by force
      have "snd (snd (uploadPlan L F (recording t) plan (s, log))) = log @ [PutCall ?inp]"
        using True Inr d k None u
        by (simp add: uploadPlan_def recording_def recordingUploader_def split: sum.splits)
      then show ?thesis using ok True by (simp add: guardCalls_def)
    qed
  qed
next
  case False
  let ?h = "\<lparr>head_Bucket = Some (bucket t), head_Key = Some (Key plan)\<rparr>"
  obtain g s1 where g0: "ensureAbsent L t (Key plan) s = (g, s1)" by force
  have g: "ensureAbsent L (recording t) (Key plan) (s, log) = (g, (s1, log @ [HeadCall ?h]))"
    using g0 by (simp add: ensureAbsent_recording)
  show ?thesis
  proof (cases g)
    case (Some e)
    then show ?thesis using False g
      by (simp add: uploadPlan_def guardCalls_def recording_def)
  next
    case None
    note gNone = None
    show ?thesis
    proof (cases "os_Open F (Source plan)")
      case (Inl e)
      then show ?thesis using False g gNone
        by (simp add: uploadPlan_def guardCalls_def recording_def)
    next
      case (Inr fl)
      obtain ct f1 where d: "detectContentType L (Source plan) fl = (ct, f1)" by force
      obtain se f2 where k: "SeekStart f1 = (se, f2)" by force
      show ?thesis
      proof (cases se)
        case (Some e)
        then show ?thesis using False g gNone Inr d k
          by (simp add: uploadPlan_def recording_def guardCalls_def)
      next
        case None
        have c: "stream f2 = content fl"
          using SeekStart_None[of f1 f2] k None detectContentType_content[of L "Source plan" fl] d
          by (simp add: stream_def)
        let ?inp = "\<lparr>put_Bucket = Some (bucket t), put_Key = Some (Key plan), put_Body = f2,
                      put_ContentType = stringPointer ct\<rparr>"
        have ok: "uploadsFile L F t plan ?inp" using Inr c d by (simp add: uploadsFile_def)
        obtain r s' where u: "uploader_Upload (uploader t) ?inp s1 = (r, s')" by force
        have "snd (snd (uploadPlan L F (recording t) plan (s, log))) =
                log @ [HeadCall ?h] @ [PutCall ?inp]"
          using False g gNone Inr d k None u
          by (simp add: uploadPlan_def recording_def recordingUploader_def split: sum.splits)
        then show ?thesis using ok False by (simp add: guardCalls_def)
      qed
    qed
  qed
qed


lemma uploadPlan_Inr:
  "uploadPlan L F t plan s = (Inr r, s') \<Longrightarrow>
     res_Source r = Source plan \<and> res_Key r = Key plan \<and> res_Size r = Size plan"
  by (auto simp: uploadPlan_def split: prod.splits option.splits sum.splits if_splits)

lemma uploadLoop_fail_empty:
  "snd (fst (uploadLoop L F t plans rs s)) \<noteq> None \<Longrightarrow> fst (fst (uploadLoop L F t plans rs s)) = []"
proof (induction plans arbitrary: rs s)
  case Nil
  then show ?case by simp
next
  case (Cons p ps)
  obtain r s' where u: "uploadPlan L F t p s = (r, s')" by force
  show ?case
  proof (cases r)
    case (Inl e)
    then show ?thesis using u by simp
  next
    case (Inr x)
    then show ?thesis using u Cons.IH[of "rs @ [x]" s'] Cons.prems by simp
  qed
qed

lemma uploadLoop_success:
  "uploadLoop L F t plans rs s = ((out, None), s') \<Longrightarrow>
     \<exists>new. out = rs @ new \<and> map res_Source new = map Source plans \<and>
       map res_Key new = map Key plans \<and> map res_Size new = map Size plans"
proof (induction plans arbitrary: rs s)
  case Nil
  then show ?case by simp
next
  case (Cons p ps)
  obtain r s1 where u: "uploadPlan L F t p s = (r, s1)" by force
  show ?case
  proof (cases r)
    case (Inl e)
    then show ?thesis using u Cons.prems by simp
  next
    case (Inr x)
    then have "uploadLoop L F t ps (rs @ [x]) s1 = ((out, None), s')"
      using u Cons.prems by simp
    from Cons.IH[OF this] obtain new where n: "out = (rs @ [x]) @ new"
      "map res_Source new = map Source ps" "map res_Key new = map Key ps"
      "map res_Size new = map Size ps" by blast
    have x: "res_Source x = Source p \<and> res_Key x = Key p \<and> res_Size x = Size p"
      using uploadPlan_Inr[of L F t p s x s1] u Inr by simp
    have "out = rs @ (x # new)" using n(1) by simp
    moreover have "map res_Source (x # new) = map Source (p # ps)"
      "map res_Key (x # new) = map Key (p # ps)" "map res_Size (x # new) = map Size (p # ps)"
      using n x by simp_all
    ultimately show ?thesis by blast
  qed
qed

lemma uploadLoop_append:
  "uploadLoop L F t done rs s = ((out, None), s1) \<Longrightarrow>
     uploadLoop L F t (done @ rest) rs s = uploadLoop L F t rest out s1"
proof (induction "done" arbitrary: rs s)
  case Nil
  then show ?case by simp
next
  case (Cons p ps)
  obtain r s' where u: "uploadPlan L F t p s = (r, s')" by force
  show ?case
  proof (cases r)
    case (Inl e)
    then show ?thesis using u Cons.prems by simp
  next
    case (Inr x)
    then show ?thesis using u Cons.prems Cons.IH[of "rs @ [x]" s'] by simp
  qed
qed

lemma uploadLoop_abort:
  "uploadLoop L F t done rs s = ((out, None), s1) \<Longrightarrow> uploadPlan L F t p s1 = (Inl e, s2) \<Longrightarrow>
     uploadLoop L F t (done @ p # rest) rs s = (([], Some e), s2)"
  using uploadLoop_append[of L F t "done" rs s out s1 "p # rest"] by simp

lemma putCalls_append: "putCalls (a @ b) = putCalls a @ putCalls b"
  by (induction a rule: putCalls.induct) simp_all

lemma headCallKeys_append: "headCallKeys (a @ b) = headCallKeys a @ headCallKeys b"
  by (induction a rule: headCallKeys.induct) simp_all

lemma putCalls_guardCalls: "putCalls (guardCalls t p) = []"
  by (simp add: guardCalls_def)

text \<open>What one plan adds to the log, as a step of the loop.\<close>

lemma uploadPlan_step:
  assumes "uploadPlan L F (recording t) plan (s, log) = (r, st)"
  obtains seg where "snd st = log @ guardCalls t plan @ seg"
    and "seg = [] \<or> (\<exists>inp. seg = [PutCall inp] \<and> uploadsFile L F t plan inp)"
    and "(\<exists>x. r = Inr x) \<longrightarrow> seg \<noteq> []"
  using uploadPlan_calls[of L F t plan s log] assms by auto

lemma uploadLoop_puts:
  "\<exists>n \<le> length plans.
     map put_Key (putCalls (snd (snd (uploadLoop L F (recording t) plans rs (s, log))))) =
       map put_Key (putCalls log) @ map (\<lambda>p. Some (Key p)) (take n plans)"
proof (induction plans arbitrary: rs s log)
  case Nil
  then show ?case by simp
next
  case (Cons p ps)
  obtain r s1 log1 where u: "uploadPlan L F (recording t) p (s, log) = (r, (s1, log1))"
    by (metis surj_pair)
  from uploadPlan_step[OF u] obtain seg where seg: "log1 = log @ guardCalls t p @ seg"
    "seg = [] \<or> (\<exists>inp. seg = [PutCall inp] \<and> uploadsFile L F t p inp)"
    "(\<exists>x. r = Inr x) \<longrightarrow> seg \<noteq> []" by auto
  show ?case
  proof (cases r)
    case (Inl e)
    have "map put_Key (putCalls log1) = map put_Key (putCalls log) @ map (\<lambda>p. Some (Key p)) (take 0 (p # ps)) \<or>
          map put_Key (putCalls log1) = map put_Key (putCalls log) @ map (\<lambda>p. Some (Key p)) (take 1 (p # ps))"
      using seg(1,2) by (auto simp: putCalls_append putCalls_guardCalls uploadsFile_def)
    moreover have "snd (snd (uploadLoop L F (recording t) (p # ps) rs (s, log))) = log1"
      using u Inl by simp
    moreover have "(0::nat) \<le> length (p # ps)" "(1::nat) \<le> length (p # ps)" by simp_all
    ultimately show ?thesis by metis
  next
    case (Inr x)
    then obtain inp where i: "seg = [PutCall inp]" "uploadsFile L F t p inp" using seg(2,3) by blast
    from Cons.IH[of "rs @ [x]" s1 log1] obtain n where n: "n \<le> length ps"
      "map put_Key (putCalls (snd (snd (uploadLoop L F (recording t) ps (rs @ [x]) (s1, log1))))) =
         map put_Key (putCalls log1) @ map (\<lambda>p. Some (Key p)) (take n ps)" by blast
    have "map put_Key (putCalls log1) = map put_Key (putCalls log) @ [Some (Key p)]"
      using seg(1) i by (simp add: putCalls_append putCalls_guardCalls uploadsFile_def)
    then have "map put_Key (putCalls (snd (snd (uploadLoop L F (recording t) (p # ps) rs (s, log))))) =
         map put_Key (putCalls log) @ map (\<lambda>p. Some (Key p)) (take (Suc n) (p # ps))"
      using n(2) u Inr by simp
    moreover have "Suc n \<le> length (p # ps)" using n(1) by simp
    ultimately show ?thesis by blast
  qed
qed


lemma headCallKeys_guardCalls:
  "headCallKeys (guardCalls t p) = (if overwrite t then [] else [Some (Key p)])"
  by (simp add: guardCalls_def)

lemma headCallKeys_seg:
  "seg = [] \<or> (\<exists>inp. seg = [PutCall inp] \<and> uploadsFile L F t p inp) \<Longrightarrow> headCallKeys seg = []"
  by auto

lemma uploadLoop_heads:
  "\<exists>n \<le> length plans.
     headCallKeys (snd (snd (uploadLoop L F (recording t) plans rs (s, log)))) =
       headCallKeys log @ (if overwrite t then [] else map (\<lambda>p. Some (Key p)) (take n plans))"
proof (induction plans arbitrary: rs s log)
  case Nil
  then show ?case by simp
next
  case (Cons p ps)
  obtain r s1 log1 where u: "uploadPlan L F (recording t) p (s, log) = (r, (s1, log1))"
    by (metis surj_pair)
  from uploadPlan_step[OF u] obtain seg where seg: "log1 = log @ guardCalls t p @ seg"
    "seg = [] \<or> (\<exists>inp. seg = [PutCall inp] \<and> uploadsFile L F t p inp)" by auto
  have h1: "headCallKeys log1 = headCallKeys log @ (if overwrite t then [] else [Some (Key p)])"
    using seg(1) headCallKeys_seg[OF seg(2)]
    by (simp add: headCallKeys_append headCallKeys_guardCalls)
  show ?case
  proof (cases r)
    case (Inl e)
    have "snd (snd (uploadLoop L F (recording t) (p # ps) rs (s, log))) = log1"
      using u Inl by simp
    then have "headCallKeys (snd (snd (uploadLoop L F (recording t) (p # ps) rs (s, log)))) =
        headCallKeys log @ (if overwrite t then [] else map (\<lambda>p. Some (Key p)) (take 1 (p # ps)))"
      using h1 by simp
    moreover have "(1::nat) \<le> length (p # ps)" by simp
    ultimately show ?thesis by blast
  next
    case (Inr x)
    from Cons.IH[of "rs @ [x]" s1 log1] obtain n where n: "n \<le> length ps"
      "headCallKeys (snd (snd (uploadLoop L F (recording t) ps (rs @ [x]) (s1, log1)))) =
         headCallKeys log1 @ (if overwrite t then [] else map (\<lambda>p. Some (Key p)) (take n ps))"
      by blast
    have "headCallKeys (snd (snd (uploadLoop L F (recording t) (p # ps) rs (s, log)))) =
         headCallKeys log @
           (if overwrite t then [] else map (\<lambda>p. Some (Key p)) (take (Suc n) (p # ps)))"
      using n(2) h1 u Inr by simp
    moreover have "Suc n \<le> length (p # ps)" using n(1) by simp
    ultimately show ?thesis by blast
  qed
qed

lemma guarded_append:
  "guarded a \<Longrightarrow> a = [] \<or> (\<exists>inp. last a = PutCall inp) \<Longrightarrow> guarded (a @ b) = guarded b"
  by (induction a rule: guarded.induct) (auto split: if_splits)

lemma uploadLoop_guarded:
  "\<not> overwrite t \<Longrightarrow> guarded log \<Longrightarrow> log = [] \<or> (\<exists>inp. last log = PutCall inp) \<Longrightarrow>
     guarded (snd (snd (uploadLoop L F (recording t) plans rs (s, log))))"
proof (induction plans arbitrary: rs s log)
  case Nil
  then show ?case by simp
next
  case (Cons p ps)
  let ?h = "\<lparr>head_Bucket = Some (bucket t), head_Key = Some (Key p)\<rparr>"
  obtain r s1 log1 where u: "uploadPlan L F (recording t) p (s, log) = (r, (s1, log1))"
    by (metis surj_pair)
  from uploadPlan_step[OF u] obtain seg where seg: "log1 = log @ guardCalls t p @ seg"
    "seg = [] \<or> (\<exists>inp. seg = [PutCall inp] \<and> uploadsFile L F t p inp)"
    "(\<exists>x. r = Inr x) \<longrightarrow> seg \<noteq> []" by auto
  have l1: "log1 = log @ (HeadCall ?h # seg)" using seg(1) Cons.prems(1) by (simp add: guardCalls_def)
  have "guarded (HeadCall ?h # seg)" using seg(2) by (auto simp: uploadsFile_def)
  then have g1: "guarded log1" using l1 guarded_append[OF Cons.prems(2,3)] by simp
  show ?case
  proof (cases r)
    case (Inl e)
    then show ?thesis using u g1 by simp
  next
    case (Inr x)
    then obtain inp where "seg = [PutCall inp]" using seg(2,3) by blast
    then have "\<exists>inp. last log1 = PutCall inp" using l1 by simp
    then show ?thesis using Cons.IH[OF Cons.prems(1) g1, of "rs @ [x]" s1] u Inr by simp
  qed
qed

lemma uploadPlan_guard_fails:
  "\<not> overwrite t \<Longrightarrow> ensureAbsent L (recording t) (Key p) st1 = (Some e, st2) \<Longrightarrow>
     uploadPlan L F (recording t) p st1 = (Inl e, st2)"
  by (simp add: uploadPlan_def recording_def)

lemma ensureAbsent_Some:
  "ensureAbsent L t key s = (Some e, s') \<Longrightarrow> e = ErrObjectExists key \<or> (\<exists>c. e = ErrHead key c)"
  by (auto simp: ensureAbsent_def split: prod.splits option.splits if_splits)

lemma uploadLoop_put_files:
  "inp \<in> set (putCalls (snd (snd (uploadLoop L F (recording t) plans rs (s, log))))) \<Longrightarrow>
     inp \<in> set (putCalls log) \<or> (\<exists>plan \<in> set plans. uploadsFile L F t plan inp)"
proof (induction plans arbitrary: rs s log)
  case Nil
  then show ?case by simp
next
  case (Cons p ps)
  obtain r s1 log1 where u: "uploadPlan L F (recording t) p (s, log) = (r, (s1, log1))"
    by (metis surj_pair)
  from uploadPlan_step[OF u] obtain seg where seg: "log1 = log @ guardCalls t p @ seg"
    "seg = [] \<or> (\<exists>inp. seg = [PutCall inp] \<and> uploadsFile L F t p inp)" by auto
  have p1: "inp \<in> set (putCalls log1) \<Longrightarrow> inp \<in> set (putCalls log) \<or> uploadsFile L F t p inp"
    using seg by (auto simp: putCalls_append putCalls_guardCalls)
  show ?case
  proof (cases r)
    case (Inl e)
    then have "snd (snd (uploadLoop L F (recording t) (p # ps) rs (s, log))) = log1"
      using u by simp
    then show ?thesis using Cons.prems p1 by auto
  next
    case (Inr x)
    then have "snd (snd (uploadLoop L F (recording t) (p # ps) rs (s, log))) =
        snd (snd (uploadLoop L F (recording t) ps (rs @ [x]) (s1, log1)))" using u by simp
    then have "inp \<in> set (putCalls log1) \<or> (\<exists>plan \<in> set ps. uploadsFile L F t plan inp)"
      using Cons.IH[of "rs @ [x]" s1 log1] Cons.prems by simp
    then show ?thesis using p1 by auto
  qed
qed


lemma Read_seekErr: "seekErr (snd (Read n f)) = seekErr f"
  by (simp add: Read_def Let_def split: option.splits)

lemma detectContentType_seekErr: "seekErr (snd (detectContentType L p f)) = seekErr f"
proof -
  obtain d e f' where r: "Read 512 f = ((d, e), f')" by (metis surj_pair)
  then have "seekErr f' = seekErr f" using Read_seekErr[of 512 f] by simp
  then show ?thesis using r by (simp add: detectContentType_def Let_def split: option.splits)
qed

lemma uploadPlan_guard_error:
  "\<not> overwrite t \<Longrightarrow> ensureAbsent L t (Key p) s = (Some e, s1) \<Longrightarrow>
     uploadPlan L F t p s = (Inl e, s1)"
  by (simp add: uploadPlan_def)

lemma uploadPlan_open_error:
  "guardPassed L t p s s1 \<Longrightarrow> os_Open F (Source p) = Inl e \<Longrightarrow>
     uploadPlan L F t p s = (Inl (ErrOpen (Source p) e), s1)"
  by (cases "overwrite t") (simp_all add: uploadPlan_def guardPassed_def)

lemma uploadPlan_seek_error:
  assumes "guardPassed L t p s s1" and "os_Open F (Source p) = Inr fl" and "seekErr fl = Some e"
  shows "uploadPlan L F t p s = (Inl (ErrRewind (Source p) e), s1)"
proof -
  obtain ct f1 where d: "detectContentType L (Source p) fl = (ct, f1)" by force
  then have "seekErr f1 = Some e" using detectContentType_seekErr[of L "Source p" fl] assms(3) by simp
  then have k: "SeekStart f1 = (Some e, f1)" by (simp add: SeekStart_def)
  show ?thesis using assms(1,2) d k
    by (cases "overwrite t") (simp_all add: uploadPlan_def guardPassed_def)
qed

lemma uploadPlan_put_error:
  assumes "guardPassed L t p s s1" and "os_Open F (Source p) = Inr fl" and "seekErr fl = None"
    and "uploader_Upload (uploader t) (putRequest L t p fl) s1 = (Inl e, s2)"
  shows "uploadPlan L F t p s = (Inl (ErrUpload (Source p) (Key p) e), s2)"
proof -
  obtain ct f1 where d: "detectContentType L (Source p) fl = (ct, f1)" by force
  then have "seekErr f1 = None" using detectContentType_seekErr[of L "Source p" fl] assms(3) by simp
  then have k: "SeekStart f1 = (None, f1\<lparr>pos := 0\<rparr>)" by (simp add: SeekStart_def)
  have u: "uploader_Upload (uploader t)
      \<lparr>put_Bucket = Some (bucket t), put_Key = Some (Key p), put_Body = f1\<lparr>pos := 0\<rparr>,
       put_ContentType = stringPointer ct\<rparr> s1 = (Inl e, s2)"
    using assms(4) d by (simp add: putRequest_def)
  show ?thesis using assms(1,2) d k u
    by (cases "overwrite t") (simp_all add: uploadPlan_def guardPassed_def)
qed

lemma uploadPlan_put_ok:
  assumes "guardPassed L t p s s1" and "os_Open F (Source p) = Inr fl" and "seekErr fl = None"
    and "uploader_Upload (uploader t) (putRequest L t p fl) s1 = (Inr out, s2)"
  shows "uploadPlan L F t p s =
     (Inr \<lparr>res_Source = Source p, res_Key = Key p, res_Size = Size p,
           res_ETag = ToString (out_ETag out)\<rparr>, s2)"
proof -
  obtain ct f1 where d: "detectContentType L (Source p) fl = (ct, f1)" by force
  then have "seekErr f1 = None" using detectContentType_seekErr[of L "Source p" fl] assms(3) by simp
  then have k: "SeekStart f1 = (None, f1\<lparr>pos := 0\<rparr>)" by (simp add: SeekStart_def)
  have u: "uploader_Upload (uploader t)
      \<lparr>put_Bucket = Some (bucket t), put_Key = Some (Key p), put_Body = f1\<lparr>pos := 0\<rparr>,
       put_ContentType = stringPointer ct\<rparr> s1 = (Inr out, s2)"
    using assms(4) d by (simp add: putRequest_def)
  show ?thesis using assms(1,2) d k u
    by (cases "overwrite t") (simp_all add: uploadPlan_def guardPassed_def)
qed

text \<open>
  Claim C3. \<open>Upload\<close> is fail-fast. Whenever it returns an error it returns no
  result at all. When it returns no error, the results are those of the plans, one for
  each plan and in the order of the plans. When the plans before some plan have all been
  transferred and that plan fails, the call returns the error of that plan and an empty
  result list, whatever was transferred before and whatever plans follow. A plan fails
  when its guard returns an error, when \<open>os.Open\<close> returns an error for its
  source, when its file cannot seek, or when the uploader returns an error for its put
  request; the error of the call is the error of the guard, or the error of the failing
  step wrapped in "failed to open", "failed to rewind" or "failed to upload". A plan
  whose guard passes, whose file opens and seeks and whose put request succeeds is
  transferred: the loop goes on after it with its result appended. The keys of the put
  requests a call sends are the keys of the first plans, in the order supplied.
\<close>

theorem upload_fail_fast:
  "(snd (fst (Upload L F t plans s)) \<noteq> None \<longrightarrow> fst (fst (Upload L F t plans s)) = []) \<and>
   (Upload L F t plans s = ((out, None), s') \<longrightarrow>
      map res_Source out = map Source plans \<and> map res_Key out = map Key plans \<and>
      map res_Size out = map Size plans) \<and>
   (uploadLoop L F t done [] s = ((rs, None), sa) \<and> uploadPlan L F t p sa = (Inl e, sb) \<longrightarrow>
      Upload L F t (done @ p # rest) s = (([], Some e), sb)) \<and>
   (\<exists>n \<le> length plans.
      map put_Key (putCalls (snd (snd (Upload L F (recording t) plans (s, []))))) =
        map (\<lambda>p. Some (Key p)) (take n plans)) \<and>
   (uploadLoop L F t done [] s = ((rs, None), sa) \<and>
    \<not> overwrite t \<and> ensureAbsent L t (Key p) sa = (Some e, sb) \<longrightarrow>
      Upload L F t (done @ p # rest) s = (([], Some e), sb)) \<and>
   (uploadLoop L F t done [] s = ((rs, None), sa) \<and>
    guardPassed L t p sa sb \<and> os_Open F (Source p) = Inl e \<longrightarrow>
      Upload L F t (done @ p # rest) s = (([], Some (ErrOpen (Source p) e)), sb)) \<and>
   (uploadLoop L F t done [] s = ((rs, None), sa) \<and>
    guardPassed L t p sa sb \<and> os_Open F (Source p) = Inr fl \<and> seekErr fl = Some e \<longrightarrow>
      Upload L F t (done @ p # rest) s = (([], Some (ErrRewind (Source p) e)), sb)) \<and>
   (uploadLoop L F t done [] s = ((rs, None), sa) \<and>
    guardPassed L t p sa sg \<and> os_Open F (Source p) = Inr fl \<and> seekErr fl = None \<and>
    uploader_Upload (uploader t) (putRequest L t p fl) sg = (Inl e, sb) \<longrightarrow>
      Upload L F t (done @ p # rest) s = (([], Some (ErrUpload (Source p) (Key p) e)), sb)) \<and>
   (uploadLoop L F t done [] s = ((rs, None), sa) \<and>
    guardPassed L t p sa sg \<and> os_Open F (Source p) = Inr fl \<and> seekErr fl = None \<and>
    uploader_Upload (uploader t) (putRequest L t p fl) sg = (Inr outp, sb) \<longrightarrow>
      uploadLoop L F t (done @ [p]) [] s =
        ((rs @ [\<lparr>res_Source = Source p, res_Key = Key p, res_Size = Size p,
                  res_ETag = ToString (out_ETag outp)\<rparr>], None), sb)) \<and>
   uploadLoop L F t [] [] s = (([], None), s)"
proof -
  have 1: "snd (fst (Upload L F t plans s)) \<noteq> None \<longrightarrow> fst (fst (Upload L F t plans s)) = []"
    using uploadLoop_fail_empty[of L F t plans "[]" s] by (simp add: Upload_def)
  have 2: "Upload L F t plans s = ((out, None), s') \<longrightarrow>
      map res_Source out = map Source plans \<and> map res_Key out = map Key plans \<and>
      map res_Size out = map Size plans"
    using uploadLoop_success[of L F t plans "[]" s out s']
    by (auto simp: Upload_def split: if_splits)
  have ab: "uploadLoop L F t done [] s = ((rs, None), sa) \<Longrightarrow> uploadPlan L F t p sa = (Inl x, sy) \<Longrightarrow>
      Upload L F t (done @ p # rest) s = (([], Some x), sy)" for x sy
    using uploadLoop_abort[of L F t "done" "[]" s rs sa p x sy rest] by (simp add: Upload_def)
  have 3: "uploadLoop L F t done [] s = ((rs, None), sa) \<and> uploadPlan L F t p sa = (Inl e, sb) \<longrightarrow>
      Upload L F t (done @ p # rest) s = (([], Some e), sb)"
    using ab by blast
  have 4: "\<exists>n \<le> length plans.
      map put_Key (putCalls (snd (snd (Upload L F (recording t) plans (s, []))))) =
        map (\<lambda>p. Some (Key p)) (take n plans)"
    using uploadLoop_puts[of plans L F t "[]" s "[]"] by (simp add: Upload_def)
  have 5: "uploadLoop L F t done [] s = ((rs, None), sa) \<and>
    \<not> overwrite t \<and> ensureAbsent L t (Key p) sa = (Some e, sb) \<longrightarrow>
      Upload L F t (done @ p # rest) s = (([], Some e), sb)"
    using ab uploadPlan_guard_error[of t L p sa e sb F] by blast
  have 6: "uploadLoop L F t done [] s = ((rs, None), sa) \<and>
    guardPassed L t p sa sb \<and> os_Open F (Source p) = Inl e \<longrightarrow>
      Upload L F t (done @ p # rest) s = (([], Some (ErrOpen (Source p) e)), sb)"
    using ab uploadPlan_open_error[of L t p sa sb F e] by blast
  have 7: "uploadLoop L F t done [] s = ((rs, None), sa) \<and>
    guardPassed L t p sa sb \<and> os_Open F (Source p) = Inr fl \<and> seekErr fl = Some e \<longrightarrow>
      Upload L F t (done @ p # rest) s = (([], Some (ErrRewind (Source p) e)), sb)"
    using ab uploadPlan_seek_error[of L t p sa sb F fl e] by blast
  have 8: "uploadLoop L F t done [] s = ((rs, None), sa) \<and>
    guardPassed L t p sa sg \<and> os_Open F (Source p) = Inr fl \<and> seekErr fl = None \<and>
    uploader_Upload (uploader t) (putRequest L t p fl) sg = (Inl e, sb) \<longrightarrow>
      Upload L F t (done @ p # rest) s = (([], Some (ErrUpload (Source p) (Key p) e)), sb)"
    using ab uploadPlan_put_error[of L t p sa sg F fl e sb] by blast
  have 9: "uploadLoop L F t done [] s = ((rs, None), sa) \<and>
    guardPassed L t p sa sg \<and> os_Open F (Source p) = Inr fl \<and> seekErr fl = None \<and>
    uploader_Upload (uploader t) (putRequest L t p fl) sg = (Inr outp, sb) \<longrightarrow>
      uploadLoop L F t (done @ [p]) [] s =
        ((rs @ [\<lparr>res_Source = Source p, res_Key = Key p, res_Size = Size p,
                  res_ETag = ToString (out_ETag outp)\<rparr>], None), sb)"
  proof (intro impI, elim conjE)
    assume a: "uploadLoop L F t done [] s = ((rs, None), sa)" "guardPassed L t p sa sg"
      "os_Open F (Source p) = Inr fl" "seekErr fl = None"
      "uploader_Upload (uploader t) (putRequest L t p fl) sg = (Inr outp, sb)"
    have "uploadLoop L F t (done @ [p]) [] s = uploadLoop L F t [p] rs sa"
      using uploadLoop_append[OF a(1), of "[p]"] by simp
    then show "uploadLoop L F t (done @ [p]) [] s =
        ((rs @ [\<lparr>res_Source = Source p, res_Key = Key p, res_Size = Size p,
                  res_ETag = ToString (out_ETag outp)\<rparr>], None), sb)"
      using uploadPlan_put_ok[OF a(2,3,4,5)] by simp
  qed
  have 10: "uploadLoop L F t [] [] s = (([], None), s)" by simp
  show ?thesis
    apply (intro conjI)
    apply (rule 1)
    apply (rule 2)
    apply (rule 3)
    apply (rule 4)
    apply (rule 5)
    apply (rule 6)
    apply (rule 7)
    apply (rule 8)
    apply (rule 9)
    apply (rule 10)
    done
qed

theorem upload_fail_fast_witness:
  "Upload testLib testFiles (fakeTransport ''bucket'' True)
     [\<lparr>Source = ''/tmp/data.txt'', Key = ''a/data.txt'', Size = 3\<rparr>,
      \<lparr>Source = ''/tmp/missing'', Key = ''a/missing'', Size = 3\<rparr>,
      \<lparr>Source = ''/tmp/blob'', Key = ''a/blob'', Size = 600\<rparr>] (fake0, stub0) =
   (([], Some (ErrOpen ''/tmp/missing'' noSuchFile)),
    (fake0, stub0\<lparr>uploads :=
       [\<lparr>put_Bucket = Some ''bucket'', put_Key = Some ''a/data.txt'',
         put_Body = \<lparr>content = ''one'', pos = 0, readErr = None, seekErr = None\<rparr>,
         put_ContentType = Some ''text/plain; charset=utf-8''\<rparr>]\<rparr>)) \<and>
   Upload testLib testFiles (fakeTransport ''bucket'' True)
     [\<lparr>Source = ''/tmp/data.txt'', Key = ''a/data.txt'', Size = 3\<rparr>,
      \<lparr>Source = ''/tmp/blob'', Key = ''a/blob'', Size = 600\<rparr>]
     (fake0, stub0\<lparr>stub_err := Some (ErrorString ''boom'')\<rparr>) =
   (([], Some (ErrUpload ''/tmp/data.txt'' ''a/data.txt'' (ErrorString ''boom''))),
    (fake0, stub0\<lparr>stub_err := Some (ErrorString ''boom''), uploads :=
       [\<lparr>put_Bucket = Some ''bucket'', put_Key = Some ''a/data.txt'',
         put_Body = \<lparr>content = ''one'', pos = 0, readErr = None, seekErr = None\<rparr>,
         put_ContentType = Some ''text/plain; charset=utf-8''\<rparr>]\<rparr>)) \<and>
   Upload testLib
     (testFiles\<lparr>os_Open := (\<lambda>p. Inr \<lparr>content = ''one'', pos = 0, readErr = None,
                                       seekErr = Some (ErrorString ''illegal seek'')\<rparr>)\<rparr>)
     (fakeTransport ''bucket'' True)
     [\<lparr>Source = ''/tmp/pipe'', Key = ''a/pipe'', Size = 3\<rparr>,
      \<lparr>Source = ''/tmp/blob'', Key = ''a/blob'', Size = 600\<rparr>] (fake0, stub0) =
   (([], Some (ErrRewind ''/tmp/pipe'' (ErrorString ''illegal seek''))), (fake0, stub0)) \<and>
   Upload testLib testFiles (fakeTransport ''bucket'' False)
     [\<lparr>Source = ''/tmp/data.txt'', Key = ''existing.txt'', Size = 3\<rparr>,
      \<lparr>Source = ''/tmp/blob'', Key = ''a/blob'', Size = 600\<rparr>] (fake0, stub0) =
   (([], Some (ErrObjectExists ''existing.txt'')), (fake0\<lparr>headCalls := [''existing.txt'']\<rparr>, stub0))"
proof -
  let ?t = "fakeTransport ''bucket'' True"
  let ?p1 = "\<lparr>Source = ''/tmp/data.txt'', Key = ''a/data.txt'', Size = 3\<rparr>"
  let ?p2 = "\<lparr>Source = ''/tmp/missing'', Key = ''a/missing'', Size = 3\<rparr>"
  let ?p3 = "\<lparr>Source = ''/tmp/blob'', Key = ''a/blob'', Size = 600\<rparr>"
  let ?pp = "\<lparr>Source = ''/tmp/pipe'', Key = ''a/pipe'', Size = 3\<rparr>"
  let ?pe = "\<lparr>Source = ''/tmp/data.txt'', Key = ''existing.txt'', Size = 3\<rparr>"
  let ?f1 = "\<lparr>content = ''one'', pos = 0, readErr = None, seekErr = None\<rparr>"
  let ?fp = "\<lparr>content = ''one'', pos = 0, readErr = None, seekErr = Some (ErrorString ''illegal seek'')\<rparr>"
  let ?F' = "testFiles\<lparr>os_Open := (\<lambda>p. Inr ?fp)\<rparr>"
  let ?req = "\<lparr>put_Bucket = Some ''bucket'', put_Key = Some ''a/data.txt'',
         put_Body = ?f1, put_ContentType = Some ''text/plain; charset=utf-8''\<rparr>"
  let ?sOne = "(fake0, stub0\<lparr>uploads := [?req]\<rparr>)"
  let ?sB = "(fake0, stub0\<lparr>stub_err := Some (ErrorString ''boom'')\<rparr>)"
  let ?sB' = "(fake0, stub0\<lparr>stub_err := Some (ErrorString ''boom''), uploads := [?req]\<rparr>)"
  let ?r1 = "\<lparr>res_Source = ''/tmp/data.txt'', res_Key = ''a/data.txt'', res_Size = 3,
          res_ETag = ''etag''\<rparr>"
  have g: "guardPassed testLib ?t pl st st" for pl st
    by (simp add: guardPassed_def fakeTransport_def NewTransport_def)
  have o1: "os_Open testFiles (Source ?p1) = Inr ?f1" by (simp add: testFiles_def)
  have o2: "os_Open testFiles (Source ?p2) = Inl noSuchFile" by (simp add: testFiles_def)
  have op: "os_Open ?F' (Source ?pp) = Inr ?fp" by simp
  have q: "putRequest testLib ?t ?p1 ?f1 = ?req" by code_simp
  have u1: "uploader_Upload (uploader ?t) ?req (fake0, stub0) = (Inr \<lparr>out_ETag = Some ''etag''\<rparr>, ?sOne)"
    by code_simp
  have uB: "uploader_Upload (uploader ?t) ?req ?sB = (Inl (ErrorString ''boom''), ?sB')"
    by code_simp
  have ge: "ensureAbsent testLib (fakeTransport ''bucket'' False) (Key ?pe) (fake0, stub0) =
      (Some (ErrObjectExists ''existing.txt''), (fake0\<lparr>headCalls := [''existing.txt'']\<rparr>, stub0))"
    by code_simp
  have nov: "\<not> overwrite (fakeTransport ''bucket'' False)"
    by (simp add: fakeTransport_def NewTransport_def)
  have a: "uploadLoop testLib testFiles ?t [?p1] [] (fake0, stub0) = (([?r1], None), ?sOne)"
    using g[of ?p1 "(fake0, stub0)"] o1 q u1
      upload_fail_fast[where L = testLib and F = testFiles and t = ?t and s = "(fake0, stub0)"
        and ?done = "[]" and rs = "[]" and sa = "(fake0, stub0)" and sg = "(fake0, stub0)"
        and sb = ?sOne and p = ?p1 and fl = ?f1 and outp = "\<lparr>out_ETag = Some ''etag''\<rparr>"
        and plans = "[]" and out = "[]" and s' = "(fake0, stub0)" and e = EOF and rest = "[]"]
    by (simp add: ToString_def)
  have 1: "Upload testLib testFiles ?t [?p1, ?p2, ?p3] (fake0, stub0) =
      (([], Some (ErrOpen ''/tmp/missing'' noSuchFile)), ?sOne)"
    using a g[of ?p2 ?sOne] o2
      upload_fail_fast[where L = testLib and F = testFiles and t = ?t and s = "(fake0, stub0)"
        and ?done = "[?p1]" and rs = "[?r1]" and sa = ?sOne and sg = ?sOne
        and sb = ?sOne and p = ?p2 and fl = ?f1 and outp = "\<lparr>out_ETag = None\<rparr>"
        and plans = "[]" and out = "[]" and s' = "(fake0, stub0)" and e = noSuchFile
        and rest = "[?p3]"]
    by simp
  have 2: "Upload testLib testFiles ?t [?p1, ?p3] ?sB =
      (([], Some (ErrUpload ''/tmp/data.txt'' ''a/data.txt'' (ErrorString ''boom''))), ?sB')"
    using g[of ?p1 ?sB] o1 q uB
      upload_fail_fast[where L = testLib and F = testFiles and t = ?t and s = ?sB
        and ?done = "[]" and rs = "[]" and sa = ?sB and sg = ?sB
        and sb = ?sB' and p = ?p1 and fl = ?f1 and outp = "\<lparr>out_ETag = None\<rparr>"
        and plans = "[]" and out = "[]" and s' = "(fake0, stub0)" and e = "ErrorString ''boom''"
        and rest = "[?p3]"]
    by simp
  have 3: "Upload testLib ?F' ?t [?pp, ?p3] (fake0, stub0) =
      (([], Some (ErrRewind ''/tmp/pipe'' (ErrorString ''illegal seek''))), (fake0, stub0))"
    using g[of ?pp "(fake0, stub0)"] op
      upload_fail_fast[where L = testLib and F = ?F' and t = ?t and s = "(fake0, stub0)"
        and ?done = "[]" and rs = "[]" and sa = "(fake0, stub0)" and sg = "(fake0, stub0)"
        and sb = "(fake0, stub0)" and p = ?pp and fl = ?fp and outp = "\<lparr>out_ETag = None\<rparr>"
        and plans = "[]" and out = "[]" and s' = "(fake0, stub0)" and e = "ErrorString ''illegal seek''"
        and rest = "[?p3]"]
    by simp
  have 4: "Upload testLib testFiles (fakeTransport ''bucket'' False) [?pe, ?p3] (fake0, stub0) =
      (([], Some (ErrObjectExists ''existing.txt'')), (fake0\<lparr>headCalls := [''existing.txt'']\<rparr>, stub0))"
    using ge nov
      upload_fail_fast[where L = testLib and F = testFiles and t = "fakeTransport ''bucket'' False"
        and s = "(fake0, stub0)"
        and ?done = "[]" and rs = "[]" and sa = "(fake0, stub0)" and sg = "(fake0, stub0)"
        and sb = "(fake0\<lparr>headCalls := [''existing.txt'']\<rparr>, stub0)" and p = ?pe and fl = ?f1
        and outp = "\<lparr>out_ETag = None\<rparr>"
        and plans = "[]" and out = "[]" and s' = "(fake0, stub0)" and e = "ErrObjectExists ''existing.txt''"
        and rest = "[?p3]"]
    by simp
  show ?thesis using 1 2 3 4 by simp
qed

text \<open>
  Claim C8. With the overwrite flag enabled a call of \<open>Upload\<close> sends no head
  request. With the flag disabled every put request directly follows a head request for
  the same bucket and key, and the head requests are for the keys of the first plans in
  their order; when the guard of a plan fails after the plans before it have been
  transferred, the call returns the error of the guard (the object exists, or the probe
  failed) with no result, and the last request sent is the head request of that plan:
  no put is sent for it or for any later plan.
\<close>

theorem overwrite_policy:
  "(overwrite t \<longrightarrow> headCallKeys (snd (snd (Upload L F (recording t) plans (s, [])))) = []) \<and>
   (\<not> overwrite t \<longrightarrow>
      guarded (snd (snd (Upload L F (recording t) plans (s, [])))) \<and>
      (\<exists>n \<le> length plans.
         headCallKeys (snd (snd (Upload L F (recording t) plans (s, [])))) =
           map (\<lambda>p. Some (Key p)) (take n plans))) \<and>
   (\<not> overwrite t \<and> uploadLoop L F (recording t) done [] (s, []) = ((rs, None), sta) \<and>
      ensureAbsent L (recording t) (Key p) sta = (Some e, stb) \<longrightarrow>
        Upload L F (recording t) (done @ p # rest) (s, []) = (([], Some e), stb) \<and>
        snd stb = snd sta @ [HeadCall \<lparr>head_Bucket = Some (bucket t), head_Key = Some (Key p)\<rparr>] \<and>
        (e = ErrObjectExists (Key p) \<or> (\<exists>c. e = ErrHead (Key p) c)))"
proof -
  have 1: "overwrite t \<longrightarrow> headCallKeys (snd (snd (Upload L F (recording t) plans (s, [])))) = []"
    using uploadLoop_heads[of plans L F t "[]" s "[]"] by (auto simp: Upload_def)
  have 2: "\<not> overwrite t \<longrightarrow> guarded (snd (snd (Upload L F (recording t) plans (s, []))))"
    using uploadLoop_guarded[of t "[]" L F plans "[]" s] by (simp add: Upload_def)
  have 3: "\<not> overwrite t \<longrightarrow> (\<exists>n \<le> length plans.
         headCallKeys (snd (snd (Upload L F (recording t) plans (s, [])))) =
           map (\<lambda>p. Some (Key p)) (take n plans))"
    using uploadLoop_heads[of plans L F t "[]" s "[]"] by (auto simp: Upload_def)
  have 4: "Upload L F (recording t) (done @ p # rest) (s, []) = (([], Some e), stb) \<and>
        snd stb = snd sta @ [HeadCall \<lparr>head_Bucket = Some (bucket t), head_Key = Some (Key p)\<rparr>] \<and>
        (e = ErrObjectExists (Key p) \<or> (\<exists>c. e = ErrHead (Key p) c))"
    if a: "\<not> overwrite t" "uploadLoop L F (recording t) done [] (s, []) = ((rs, None), sta)"
      "ensureAbsent L (recording t) (Key p) sta = (Some e, stb)"
  proof -
    have "uploadPlan L F (recording t) p sta = (Inl e, stb)"
      using uploadPlan_guard_fails[OF a(1,3)] .
    then have "Upload L F (recording t) (done @ p # rest) (s, []) = (([], Some e), stb)"
      using uploadLoop_abort[OF a(2)] by (simp add: Upload_def)
    moreover have "snd stb = snd sta @ [HeadCall \<lparr>head_Bucket = Some (bucket t), head_Key = Some (Key p)\<rparr>]"
      using ensureAbsent_log[of L t "Key p" "fst sta" "snd sta"] a(3) by simp
    moreover have "e = ErrObjectExists (Key p) \<or> (\<exists>c. e = ErrHead (Key p) c)"
      using ensureAbsent_Some[OF a(3)] .
    ultimately show ?thesis by blast
  qed
  show ?thesis using 1 2 3 4 by blast
qed


theorem overwrite_policy_witness:
  "Upload testLib testFiles (recording (fakeTransport ''bucket'' False))
     [\<lparr>Source = ''/tmp/data.txt'', Key = ''existing.txt'', Size = 1\<rparr>] ((fake0, stub0), []) =
     (([], Some (ErrObjectExists ''existing.txt'')),
      ((fake0\<lparr>headCalls := [''existing.txt'']\<rparr>, stub0),
       [HeadCall \<lparr>head_Bucket = Some ''bucket'', head_Key = Some ''existing.txt''\<rparr>])) \<and>
   headCallKeys (snd (snd (Upload testLib testFiles (recording (fakeTransport ''bucket'' True))
     [\<lparr>Source = ''/tmp/data.txt'', Key = ''existing.txt'', Size = 1\<rparr>] ((fake0, stub0), [])))) = []"
proof -
  let ?p = "\<lparr>Source = ''/tmp/data.txt'', Key = ''existing.txt'', Size = 1\<rparr>"
  let ?stb = "((fake0\<lparr>headCalls := [''existing.txt'']\<rparr>, stub0),
       [HeadCall \<lparr>head_Bucket = Some ''bucket'', head_Key = Some ''existing.txt''\<rparr>])"
  have ow: "\<not> overwrite (fakeTransport ''bucket'' False)" "overwrite (fakeTransport ''bucket'' True)"
    by (simp_all add: fakeTransport_def NewTransport_def)
  have g: "ensureAbsent testLib (recording (fakeTransport ''bucket'' False)) (Key ?p)
      ((fake0, stub0), []) = (Some (ErrObjectExists ''existing.txt''), ?stb)"
    by code_simp
  have 1: "Upload testLib testFiles (recording (fakeTransport ''bucket'' False)) [?p]
      ((fake0, stub0), []) = (([], Some (ErrObjectExists ''existing.txt'')), ?stb)"
    using ow(1) g overwrite_policy[where L = testLib and F = testFiles
        and t = "fakeTransport ''bucket'' False" and s = "(fake0, stub0)" and ?done = "[]"
        and rs = "[]" and sta = "((fake0, stub0), [])" and p = ?p and rest = "[]"
        and e = "ErrObjectExists ''existing.txt''" and stb = ?stb and plans = "[]"]
    by simp
  have 2: "headCallKeys (snd (snd (Upload testLib testFiles
      (recording (fakeTransport ''bucket'' True)) [?p] ((fake0, stub0), [])))) = []"
    using ow(2) overwrite_policy[where L = testLib and F = testFiles
        and t = "fakeTransport ''bucket'' True" and s = "(fake0, stub0)" and ?done = "[]"
        and rs = "[]" and sta = "((fake0, stub0), [])" and p = ?p and rest = "[]"
        and e = "ErrObjectExists ''existing.txt''" and stb = ?stb and plans = "[?p]"]
    by simp
  show ?thesis using 1 2 by simp
qed

lemma Read_data:
  "readErr fl = None \<Longrightarrow> fst (fst (Read n fl)) = take n (stream fl)"
  by (simp add: Read_def stream_def Let_def)

lemma Read_err:
  "readErr fl = None \<Longrightarrow> snd (fst (Read n fl)) = None \<or> snd (fst (Read n fl)) = Some EOF"
  by (simp add: Read_def Let_def)

lemma detectContentType_ext:
  "strings_ToLower L (filepath_Ext L path) \<noteq> [] \<and>
   mime_TypeByExtension L (strings_ToLower L (filepath_Ext L path)) \<noteq> [] \<Longrightarrow>
     detectContentType L path fl =
       (mime_TypeByExtension L (strings_ToLower L (filepath_Ext L path)), fl)"
  by (simp add: detectContentType_def Let_def)

lemma detectContentType_sniff:
  assumes "strings_ToLower L (filepath_Ext L path) = [] \<or>
           mime_TypeByExtension L (strings_ToLower L (filepath_Ext L path)) = []"
    and "readErr fl = None"
  shows "fst (detectContentType L path fl) = http_DetectContentType L (take 512 (stream fl))"
proof -
  obtain d e f' where r: "Read 512 fl = ((d, e), f')" by (metis surj_pair)
  have d: "d = take 512 (stream fl)" using Read_data[OF assms(2), of 512] r by simp
  have e: "e = None \<or> e = Some EOF" using Read_err[OF assms(2), of 512] r by simp
  have "errorsIs EOF EOF" by (simp add: errorsIs_def)
  then show ?thesis using assms(1) r d e
    by (auto simp: detectContentType_def Let_def)
qed

lemma detectContentType_read_fails:
  assumes "strings_ToLower L (filepath_Ext L path) = [] \<or>
           mime_TypeByExtension L (strings_ToLower L (filepath_Ext L path)) = []"
    and "readErr fl = Some e"
  shows "fst (detectContentType L path fl) =
           (if errorsIs e EOF then http_DetectContentType L [] else [])"
  using assms by (auto simp: detectContentType_def Let_def Read_def)

text \<open>
  Claim C9. When the lower-cased extension of the path is not empty and has an entry in
  the MIME table, \<open>detectContentType\<close> returns that entry and leaves the file as it
  is: it reads nothing. Otherwise it reads once, with a buffer of 512 bytes: for a file
  just opened whose read does not fail the result is what the sniffer finds in the
  first 512 bytes of the content (all of it when the file is shorter); when the read
  fails with an error other than the end of the file the result is empty. Every put
  request a call of \<open>Upload\<close> sends uploads the file of one of the plans: the body
  is positioned at the start, so that its reader gets the whole content of the file,
  and the content type is the detected one.
\<close>

theorem content_type_detection:
  "(strings_ToLower L (filepath_Ext L path) \<noteq> [] \<and>
    mime_TypeByExtension L (strings_ToLower L (filepath_Ext L path)) \<noteq> [] \<longrightarrow>
      detectContentType L path fl =
        (mime_TypeByExtension L (strings_ToLower L (filepath_Ext L path)), fl)) \<and>
   ((strings_ToLower L (filepath_Ext L path) = [] \<or>
     mime_TypeByExtension L (strings_ToLower L (filepath_Ext L path)) = []) \<longrightarrow>
      (readErr fl = None \<and> pos fl = 0 \<longrightarrow>
         fst (detectContentType L path fl) = http_DetectContentType L (take 512 (content fl))) \<and>
      (readErr fl = Some e \<longrightarrow>
         fst (detectContentType L path fl) =
           (if errorsIs e EOF then http_DetectContentType L [] else []))) \<and>
   (\<forall>inp \<in> set (putCalls (snd (snd (Upload L F (recording t) plans (s, []))))).
      \<exists>plan \<in> set plans. uploadsFile L F t plan inp)"
proof -
  have 1: "strings_ToLower L (filepath_Ext L path) \<noteq> [] \<and>
    mime_TypeByExtension L (strings_ToLower L (filepath_Ext L path)) \<noteq> [] \<longrightarrow>
      detectContentType L path fl =
        (mime_TypeByExtension L (strings_ToLower L (filepath_Ext L path)), fl)"
    using detectContentType_ext[of L path fl] by blast
  have 2: "(strings_ToLower L (filepath_Ext L path) = [] \<or>
     mime_TypeByExtension L (strings_ToLower L (filepath_Ext L path)) = []) \<longrightarrow>
      (readErr fl = None \<and> pos fl = 0 \<longrightarrow>
         fst (detectContentType L path fl) = http_DetectContentType L (take 512 (content fl)))"
    using detectContentType_sniff[of L path fl] by (auto simp: stream_def)
  have 3: "(strings_ToLower L (filepath_Ext L path) = [] \<or>
     mime_TypeByExtension L (strings_ToLower L (filepath_Ext L path)) = []) \<longrightarrow>
      (readErr fl = Some e \<longrightarrow>
         fst (detectContentType L path fl) =
           (if errorsIs e EOF then http_DetectContentType L [] else []))"
    using detectContentType_read_fails[of L path fl e] by blast
  have 4: "\<forall>inp \<in> set (putCalls (snd (snd (Upload L F (recording t) plans (s, []))))).
      \<exists>plan \<in> set plans. uploadsFile L F t plan inp"
    using uploadLoop_put_files[of _ L F t plans "[]" s "[]"] by (auto simp: Upload_def)
  show ?thesis using 1 2 3 4 by blast
qed


theorem content_type_detection_witness:
  "detectContentType testLib ''/tmp/data.txt''
      \<lparr>content = ''one'', pos = 0, readErr = None, seekErr = None\<rparr> =
     (''text/plain; charset=utf-8'', \<lparr>content = ''one'', pos = 0, readErr = None, seekErr = None\<rparr>) \<and>
   fst (detectContentType testLib ''/tmp/blob''
      \<lparr>content = replicate 600 (CHR 0x00), pos = 0, readErr = None, seekErr = None\<rparr>) =
     http_DetectContentType testLib (replicate 512 (CHR 0x00)) \<and>
   map (\<lambda>inp. (put_Key inp, put_ContentType inp, stream (put_Body inp)))
     (putCalls (snd (snd (Upload testLib testFiles (recording (fakeTransport ''bucket'' True))
        [\<lparr>Source = ''/tmp/blob'', Key = ''a/blob'', Size = 600\<rparr>] ((fake0, stub0), []))))) =
     [(Some ''a/blob'', Some ''application/octet-stream'', replicate 600 (CHR 0x00))]"
proof -
  let ?data = "\<lparr>content = ''one'', pos = 0, readErr = None, seekErr = None\<rparr>"
  let ?blob = "\<lparr>content = replicate 600 (CHR 0x00), pos = 0, readErr = None, seekErr = None\<rparr>"
  let ?plan = "\<lparr>Source = ''/tmp/blob'', Key = ''a/blob'', Size = 600\<rparr>"
  let ?t = "fakeTransport ''bucket'' True"
  let ?log = "snd (snd (Upload testLib testFiles (recording ?t) [?plan] ((fake0, stub0), [])))"
  have x: "strings_ToLower testLib (filepath_Ext testLib ''/tmp/data.txt'') = ''.txt''"
    "strings_ToLower testLib (filepath_Ext testLib ''/tmp/blob'') = []"
    "mime_TypeByExtension testLib ''.txt'' = ''text/plain; charset=utf-8''"
    by code_simp+
  have o: "os_Open testFiles ''/tmp/blob'' = Inr ?blob" by (simp add: testFiles_def)
  have ct: "stringPointer (http_DetectContentType testLib (replicate 512 (CHR 0x00))) =
      Some ''application/octet-stream''"
    by code_simp
  have 1: "detectContentType testLib ''/tmp/data.txt'' ?data = (''text/plain; charset=utf-8'', ?data)"
    using x content_type_detection[where L = testLib and path = "''/tmp/data.txt''"
        and fl = ?data and e = EOF and F = testFiles and t = ?t and plans = "[]"
        and s = "(fake0, stub0)"]
    by simp
  have 2: "fst (detectContentType testLib ''/tmp/blob'' ?blob) =
      http_DetectContentType testLib (replicate 512 (CHR 0x00))"
    and 3: "\<forall>inp \<in> set (putCalls ?log). uploadsFile testLib testFiles ?t ?plan inp"
    using x content_type_detection[where L = testLib and path = "''/tmp/blob''"
        and fl = ?blob and e = EOF and F = testFiles and t = ?t and plans = "[?plan]"
        and s = "(fake0, stub0)"]
    by simp_all
  have 4: "uploadsFile testLib testFiles ?t ?plan inp \<Longrightarrow>
      put_Key inp = Some ''a/blob'' \<and> stream (put_Body inp) = replicate 600 (CHR 0x00) \<and>
      put_ContentType inp = Some ''application/octet-stream''" for inp
    using o 2 ct by (simp add: uploadsFile_def)
  have "length (putCalls ?log) = 1" by code_simp
  then obtain inp where inp: "putCalls ?log = [inp]"
    by (cases "putCalls ?log") auto
  have "put_Key inp = Some ''a/blob'' \<and> stream (put_Body inp) = replicate 600 (CHR 0x00) \<and>
      put_ContentType inp = Some ''application/octet-stream''"
    by (rule 4) (use 3 inp in simp)
  then show ?thesis unfolding inp using 1 2 by simp
qed

lemma WalkDir_only_directories:
  "\<forall>c \<in> set calls. walkErr c = None \<and> entry_IsDir c \<Longrightarrow>
     WalkDir (walkFn L basePrefix root) calls st = Inr st"
  by (induction calls) (simp_all add: walkFn_def split: prod.splits)

lemma buildLoop_only_directories:
  "\<forall>p \<in> set paths. TrimSpace p \<noteq> [] \<and>
      (\<exists>info. os_Stat F (TrimSpace p) = Inr info \<and> info_IsDir info) \<and>
      (\<forall>c \<in> set (walk F (filepath_Clean L (TrimSpace p))). walkErr c = None \<and> entry_IsDir c) \<Longrightarrow>
     buildLoop L F basePrefix paths st = (fst st, None)"
proof (induction paths)
  case Nil
  then show ?case by simp
next
  case (Cons p ps)
  then obtain info where i: "TrimSpace p \<noteq> []" "os_Stat F (TrimSpace p) = Inr info" "info_IsDir info"
    by auto
  have w: "WalkDir (walkFn L basePrefix (filepath_Clean L (TrimSpace p)))
      (walk F (filepath_Clean L (TrimSpace p))) st = Inr st"
    using Cons.prems by (intro WalkDir_only_directories) simp
  have "buildLoop L F basePrefix ps st = (fst st, None)" using Cons by simp
  then show ?case using i w by (simp add: Let_def)
qed

text \<open>
  Claim C10. When the path list is not empty and every path is, after trimming, not
  blank and names a directory under which the walk meets directories only,
  \<open>BuildPlans\<close> succeeds with an empty plan list, and \<open>Upload\<close> of that list fails
  with the error "no files provided for upload" without sending any request. The
  witness is such a path list.
\<close>

theorem planning_may_yield_no_plan:
  "paths \<noteq> [] \<and>
   (\<forall>p \<in> set paths. TrimSpace p \<noteq> [] \<and>
      (\<exists>info. os_Stat F (TrimSpace p) = Inr info \<and> info_IsDir info) \<and>
      (\<forall>c \<in> set (walk F (filepath_Clean L (TrimSpace p))). walkErr c = None \<and> entry_IsDir c))
   \<longrightarrow>
     BuildPlans L F paths pfx = ([], None) \<and>
     Upload L F (recording t) (fst (BuildPlans L F paths pfx)) (s, []) =
       (([], Some ErrNoFiles), (s, []))"
proof (intro impI, elim conjE)
  assume a: "paths \<noteq> []" and b: "\<forall>p \<in> set paths. TrimSpace p \<noteq> [] \<and>
      (\<exists>info. os_Stat F (TrimSpace p) = Inr info \<and> info_IsDir info) \<and>
      (\<forall>c \<in> set (walk F (filepath_Clean L (TrimSpace p))). walkErr c = None \<and> entry_IsDir c)"
  have "BuildPlans L F paths pfx = ([], None)"
    using a buildLoop_only_directories[OF b, of "normalizePrefix pfx" "([], {})"]
    by (simp add: BuildPlans_def)
  then show "BuildPlans L F paths pfx = ([], None) \<and>
     Upload L F (recording t) (fst (BuildPlans L F paths pfx)) (s, []) =
       (([], Some ErrNoFiles), (s, []))"
    by (simp add: Upload_def)
qed

theorem planning_may_yield_no_plan_witness:
  "BuildPlans testLib testFiles [''/tmp/empty''] ''artifact'' = ([], None) \<and>
   Upload testLib testFiles (recording (fakeTransport ''bucket'' True))
      (fst (BuildPlans testLib testFiles [''/tmp/empty''] ''artifact'')) ((fake0, stub0), []) =
     (([], Some ErrNoFiles), ((fake0, stub0), []))"
proof -
  have t: "TrimSpace ''/tmp/empty'' = ''/tmp/empty''" by code_simp
  have st: "os_Stat testFiles ''/tmp/empty'' = Inr \<lparr>info_IsDir = True, info_Size = 4096\<rparr>"
    by (simp add: testFiles_def)
  have w: "walk testFiles (filepath_Clean testLib ''/tmp/empty'') =
      [\<lparr>current = ''/tmp/empty'', entry_IsDir = True,
        entry_Info = Inr \<lparr>info_IsDir = True, info_Size = 4096\<rparr>, walkErr = None\<rparr>,
       \<lparr>current = ''/tmp/empty/sub'', entry_IsDir = True,
        entry_Info = Inr \<lparr>info_IsDir = True, info_Size = 4096\<rparr>, walkErr = None\<rparr>]"
    by (simp add: testFiles_def testLib_def)
  have h: "[''/tmp/empty''] \<noteq> [] \<and>
   (\<forall>p \<in> set [''/tmp/empty'']. TrimSpace p \<noteq> [] \<and>
      (\<exists>info. os_Stat testFiles (TrimSpace p) = Inr info \<and> info_IsDir info) \<and>
      (\<forall>c \<in> set (walk testFiles (filepath_Clean testLib (TrimSpace p))).
         walkErr c = None \<and> entry_IsDir c))"
    using t st w by simp
  show ?thesis
    by (rule mp[OF planning_may_yield_no_plan[where paths = "[''/tmp/empty'']" and F = testFiles
        and L = testLib and pfx = "''artifact''" and t = "fakeTransport ''bucket'' True"
        and s = "(fake0, stub0)"] h])
qed

section \<open>Properties of the plan builder\<close>

lemma collect_append:
  "collect (a @ b) st = (case collect a st of Inl e \<Rightarrow> Inl e | Inr st' \<Rightarrow> collect b st')"
  by (induction a st rule: collect.induct) simp_all

lemma walkFn_collect: "walkFn L bp root c st = collect (walkItem L bp root c) st"
  by (cases st) (simp add: walkFn_def walkItem_def Let_def split: option.splits sum.splits)

lemma WalkDir_collect:
  "WalkDir (walkFn L bp root) calls st = collect (concat (map (walkItem L bp root) calls)) st"
proof (induction calls arbitrary: st)
  case Nil
  then show ?case by simp
next
  case (Cons c cs)
  show ?case
  proof (cases "collect (walkItem L bp root c) st")
    case (Inl e)
    then show ?thesis by (simp add: collect_append walkFn_collect)
  next
    case (Inr st')
    then show ?thesis using Cons.IH[of st'] by (simp add: collect_append walkFn_collect)
  qed
qed

lemma buildLoop_collect:
  "buildLoop L F bp paths st =
     (case collect (concat (map (pathItems L F bp) paths)) st of
        Inl e \<Rightarrow> ([], Some e)
      | Inr st' \<Rightarrow> (fst st', None))"
proof (induction paths arbitrary: st)
  case Nil
  then show ?case by simp
next
  case (Cons p ps)
  show ?case
    by (simp add: collect_append pathItems_def Let_def WalkDir_collect Cons.IH
          split: sum.splits)
qed


lemma BuildPlans_collect:
  "paths \<noteq> [] \<Longrightarrow>
     BuildPlans L F paths pfx =
       (case collect (traversal L F paths pfx) ([], {}) of
          Inl e \<Rightarrow> ([], Some e)
        | Inr st \<Rightarrow> (fst st, None))"
  by (simp add: BuildPlans_def traversal_def buildLoop_collect)

lemma collect_entries:
  "set (map Key ps) \<inter> snd st = {} \<Longrightarrow> distinct (map Key ps) \<Longrightarrow>
     collect (map Entry ps) st = Inr (fst st @ ps, set (map Key ps) \<union> snd st)"
proof (induction ps arbitrary: st)
  case Nil
  then show ?case by simp
next
  case (Cons p ps)
  have "Key p \<notin> snd st" using Cons.prems(1) by auto
  moreover have "set (map Key ps) \<inter> snd (fst st @ [p], insert (Key p) (snd st)) = {}"
    using Cons.prems by auto
  moreover have "distinct (map Key ps)" using Cons.prems(2) by simp
  ultimately show ?case using Cons.IH[of "(fst st @ [p], insert (Key p) (snd st))"] by simp
qed

lemma collect_result:
  "collect its st = Inr st' \<Longrightarrow> snd st = Key ` set (fst st) \<Longrightarrow> distinct (map Key (fst st)) \<Longrightarrow>
     snd st' = Key ` set (fst st') \<and> distinct (map Key (fst st')) \<and>
     (\<exists>ps. its = map Entry ps \<and> fst st' = fst st @ ps)"
proof (induction its st rule: collect.induct)
  case (1 st)
  then show ?case by simp
next
  case (2 e "is" st)
  then show ?case by simp
next
  case (3 p "is" st)
  then have k: "Key p \<notin> snd st" and c: "collect is (fst st @ [p], insert (Key p) (snd st)) = Inr st'"
    by (auto split: if_splits)
  have "snd (fst st @ [p], insert (Key p) (snd st)) = Key ` set (fst (fst st @ [p], insert (Key p) (snd st)))"
    using "3.prems"(2) by auto
  moreover have "distinct (map Key (fst (fst st @ [p], insert (Key p) (snd st))))"
    using "3.prems"(2,3) k by auto
  ultimately obtain ps where r: "snd st' = Key ` set (fst st')" "distinct (map Key (fst st'))"
    "is = map Entry ps" "fst st' = (fst st @ [p]) @ ps"
    using "3.IH"[OF k c] by auto
  then have "Entry p # is = map Entry (p # ps) \<and> fst st' = fst st @ (p # ps)" by simp
  then have "\<exists>ps'. Entry p # is = map Entry ps' \<and> fst st' = fst st @ ps'"
    by (rule exI[of _ "p # ps"])
  then show ?case using r(1,2) by simp
qed

text \<open>
  Claim C2. Take the traversal of a call of \<open>BuildPlans\<close> on a non-empty path list:
  all the entries of all the input paths in the order the call meets them. When the
  traversal starts with files that resolve to distinct keys and the entry after them is
  a file whose key is the key of one of them, the call fails with the error "duplicate
  object key detected", which holds that key (the key of the second occurrence), and
  returns no plan, whichever input paths the two entries come from and whatever follows
  in the traversal. More generally the call returns no plan whenever it returns an
  error, and when it returns no error the keys of its plans are distinct and its plans
  are the entries of the traversal.
\<close>

theorem duplicate_key:
  "(snd (BuildPlans L F paths pfx) \<noteq> None \<longrightarrow> fst (BuildPlans L F paths pfx) = []) \<and>
   (snd (BuildPlans L F paths pfx) = None \<longrightarrow>
      distinct (map Key (fst (BuildPlans L F paths pfx))) \<and>
      (paths \<noteq> [] \<longrightarrow> traversal L F paths pfx = map Entry (fst (BuildPlans L F paths pfx)))) \<and>
   (paths \<noteq> [] \<and> traversal L F paths pfx = map Entry ps @ Entry q # later \<and>
    distinct (map Key ps) \<and> Key q \<in> set (map Key ps) \<longrightarrow>
      BuildPlans L F paths pfx = ([], Some (ErrDuplicateKey (Key q))))"
proof -
  let ?T = "traversal L F paths pfx"
  have 1: "snd (BuildPlans L F paths pfx) \<noteq> None \<longrightarrow> fst (BuildPlans L F paths pfx) = []"
  proof (cases "paths = []")
    case True
    then show ?thesis by (simp add: BuildPlans_def)
  next
    case False
    then show ?thesis by (simp add: BuildPlans_collect split: sum.splits)
  qed
  have 2: "snd (BuildPlans L F paths pfx) = None \<longrightarrow>
      distinct (map Key (fst (BuildPlans L F paths pfx))) \<and>
      (paths \<noteq> [] \<longrightarrow> ?T = map Entry (fst (BuildPlans L F paths pfx)))"
  proof (cases "paths = []")
    case True
    then show ?thesis by (simp add: BuildPlans_def)
  next
    case False
    show ?thesis
    proof (cases "collect ?T ([], {})")
      case (Inl e)
      then show ?thesis using False by (simp add: BuildPlans_collect)
    next
      case (Inr st)
      from collect_result[OF Inr] have "distinct (map Key (fst st))"
        "\<exists>ps. ?T = map Entry ps \<and> fst st = ps" by auto
      then show ?thesis using False Inr by (auto simp: BuildPlans_collect)
    qed
  qed
  have 3: "BuildPlans L F paths pfx = ([], Some (ErrDuplicateKey (Key q)))"
    if a: "paths \<noteq> []" "?T = map Entry ps @ Entry q # later"
      "distinct (map Key ps)" "Key q \<in> set (map Key ps)"
  proof -
    have "collect (map Entry ps) ([], {}) = Inr (ps, set (map Key ps))"
      using collect_entries[of ps "([], {})"] a(3) by simp
    then have "collect ?T ([], {}) = Inl (ErrDuplicateKey (Key q))"
      using a(2,4) by (simp add: collect_append)
    then show ?thesis using a(1) by (simp add: BuildPlans_collect)
  qed
  show ?thesis using 1 2 3 by blast
qed

theorem duplicate_key_witness:
  "BuildPlans testLib testFiles [''/tmp/data.txt'', ''/tmp/data.txt''] [] =
     ([], Some (ErrDuplicateKey ''data.txt'')) \<and>
   BuildPlans testLib testFiles [''/tmp/nested'', ''/tmp/data.txt''] [] =
     ([], Some (ErrDuplicateKey ''data.txt'')) \<and>
   BuildPlans testLib testFiles [''/tmp/nested''] ''artifact'' =
     ([\<lparr>Source = ''/tmp/nested/data.txt'', Key = ''artifact/data.txt'', Size = 5\<rparr>], None)"
proof -
  have t1: "traversal testLib testFiles [''/tmp/data.txt'', ''/tmp/data.txt''] [] =
      map Entry [\<lparr>Source = ''/tmp/data.txt'', Key = ''data.txt'', Size = 3\<rparr>] @
      Entry \<lparr>Source = ''/tmp/data.txt'', Key = ''data.txt'', Size = 3\<rparr> # []"
    by code_simp
  have t2: "traversal testLib testFiles [''/tmp/nested'', ''/tmp/data.txt''] [] =
      map Entry [\<lparr>Source = ''/tmp/nested/data.txt'', Key = ''data.txt'', Size = 5\<rparr>] @
      Entry \<lparr>Source = ''/tmp/data.txt'', Key = ''data.txt'', Size = 3\<rparr> # []"
    by code_simp
  have t3: "BuildPlans testLib testFiles [''/tmp/nested''] ''artifact'' =
     ([\<lparr>Source = ''/tmp/nested/data.txt'', Key = ''artifact/data.txt'', Size = 5\<rparr>], None)"
    by code_simp
  have 1: "BuildPlans testLib testFiles [''/tmp/data.txt'', ''/tmp/data.txt''] [] =
     ([], Some (ErrDuplicateKey ''data.txt''))"
    using t1 duplicate_key[where L = testLib and F = testFiles
        and paths = "[''/tmp/data.txt'', ''/tmp/data.txt'']" and pfx = "[]"
        and ps = "[\<lparr>Source = ''/tmp/data.txt'', Key = ''data.txt'', Size = 3\<rparr>]"
        and q = "\<lparr>Source = ''/tmp/data.txt'', Key = ''data.txt'', Size = 3\<rparr>" and later = "[]"]
    by simp
  have 2: "BuildPlans testLib testFiles [''/tmp/nested'', ''/tmp/data.txt''] [] =
     ([], Some (ErrDuplicateKey ''data.txt''))"
    using t2 duplicate_key[where L = testLib and F = testFiles
        and paths = "[''/tmp/nested'', ''/tmp/data.txt'']" and pfx = "[]"
        and ps = "[\<lparr>Source = ''/tmp/nested/data.txt'', Key = ''data.txt'', Size = 5\<rparr>]"
        and q = "\<lparr>Source = ''/tmp/data.txt'', Key = ''data.txt'', Size = 3\<rparr>" and later = "[]"]
    by simp
  show ?thesis using 1 2 t3 by simp
qed

section \<open>Properties of the cleanup engine\<close>

lemma recording_simps:
  "bucket (recording t) = bucket t"
  "ListObjectsV2 (client (recording t)) inp (s, log) =
     (case ListObjectsV2 (client t) inp s of (r, s') \<Rightarrow> (r, (s', log @ [ListCall inp])))"
  "DeleteObjects (client (recording t)) d (s, log) =
     (case DeleteObjects (client t) d s of (r, s') \<Rightarrow> (r, (s', log @ [DeleteCall d])))"
  by (simp_all add: recording_def recordingClient_def)

lemma cleanupLoop_Suc:
  "cleanupLoop (Suc n) t r tot tok s =
     (case ListObjectsV2 (client t) (listInput t r tok) s of
        (Inl err, s1) \<Rightarrow> (Some (tot, Some (ErrList err)), s1)
      | (Inr page, s1) \<Rightarrow>
          if Contents page = [] then
            (case NextContinuationToken page of
               None \<Rightarrow> (Some (tot, None), s1)
             | Some next \<Rightarrow> cleanupLoop n t r tot (Some next) s1)
          else
            (case DeleteObjects (client t) (deleteInput t page) s1 of
               (Some err, s2) \<Rightarrow> (Some (tot, Some (ErrDelete err)), s2)
             | (None, s2) \<Rightarrow>
                 (case NextContinuationToken page of
                    None \<Rightarrow> (Some (tot + of_nat (length (Contents page)), None), s2)
                  | Some next \<Rightarrow>
                      cleanupLoop n t r (tot + of_nat (length (Contents page))) (Some next) s2)))"
  by (simp add: listInput_def deleteInput_def Let_def
        split: prod.splits sum.splits option.splits)


declare cleanupLoop.simps(2) [simp del]

lemma listInput_recording: "listInput (recording t) r tok = listInput t r tok"
  by (simp add: listInput_def recording_simps)

lemma deleteInput_recording: "deleteInput (recording t) page = deleteInput t page"
  by (simp add: deleteInput_def recording_simps)

text \<open>The origin of every request in the log of the loop.\<close>

lemma cleanupLoop_calls:
  "c \<in> set (snd (snd (cleanupLoop n (recording t) r tot tok (s, log)))) \<Longrightarrow>
     c \<in> set log \<or> (\<exists>tk. c = ListCall (listInput t r tk)) \<or>
     (\<exists>tk sa page sb. ListObjectsV2 (client t) (listInput t r tk) sa = (Inr page, sb) \<and>
        c = DeleteCall (deleteInput t page))"
proof (induction n arbitrary: tot tok s log)
  case 0
  then show ?case by simp
next
  case (Suc n)
  let ?inp = "listInput t r tok"
  let ?log1 = "log @ [ListCall ?inp]"
  let ?R = "\<lambda>c lg. c \<in> set lg \<or> (\<exists>tk. c = ListCall (listInput t r tk)) \<or>
     (\<exists>tk sa page sb. ListObjectsV2 (client t) (listInput t r tk) sa = (Inr page, sb) \<and>
        c = DeleteCall (deleteInput t page))"
  obtain lr s1 where l: "ListObjectsV2 (client t) ?inp s = (lr, s1)" by force
  have r1: "c \<in> set ?log1 \<Longrightarrow> ?R c log" by auto
  show ?case
  proof (cases lr)
    case (Inl e)
    then have "snd (snd (cleanupLoop (Suc n) (recording t) r tot tok (s, log))) = ?log1"
      using l by (simp add: cleanupLoop_Suc recording_simps listInput_recording)
    then show ?thesis using Suc.prems r1 by simp
  next
    case (Inr page)
    note page = Inr
    let ?d = "deleteInput t page"
    let ?log2 = "?log1 @ [DeleteCall ?d]"
    have w: "\<exists>tk sa pg sb. ListObjectsV2 (client t) (listInput t r tk) sa = (Inr pg, sb) \<and>
        DeleteCall ?d = DeleteCall (deleteInput t pg)"
      using l page by blast
    have "c \<in> set ?log2 \<Longrightarrow> c \<in> set log \<or> c = ListCall ?inp \<or> c = DeleteCall ?d" by auto
    then have r2: "c \<in> set ?log2 \<Longrightarrow> ?R c log" using w by blast
    show ?thesis
    proof (cases "Contents page = []")
      case True
      show ?thesis
      proof (cases "NextContinuationToken page")
        case None
        then have "snd (snd (cleanupLoop (Suc n) (recording t) r tot tok (s, log))) = ?log1"
          using l page True by (simp add: cleanupLoop_Suc recording_simps listInput_recording)
        then show ?thesis using Suc.prems r1 by simp
      next
        case (Some tk)
        then have "cleanupLoop (Suc n) (recording t) r tot tok (s, log) =
            cleanupLoop n (recording t) r tot (Some tk) (s1, ?log1)"
          using l page True by (simp add: cleanupLoop_Suc recording_simps listInput_recording)
        then have "?R c ?log1" using Suc.IH[of tot "Some tk" s1 ?log1] Suc.prems by simp
        then show ?thesis using r1 by blast
      qed
    next
      case False
      obtain dr s2 where d: "DeleteObjects (client t) ?d s1 = (dr, s2)" by force
      show ?thesis
      proof (cases dr)
        case (Some e)
        then have "snd (snd (cleanupLoop (Suc n) (recording t) r tot tok (s, log))) = ?log2"
          using l page False d
          by (simp add: cleanupLoop_Suc recording_simps listInput_recording deleteInput_recording)
        then show ?thesis using Suc.prems r2 by simp
      next
        case None
        note dNone = None
        show ?thesis
        proof (cases "NextContinuationToken page")
          case None
          then have "snd (snd (cleanupLoop (Suc n) (recording t) r tot tok (s, log))) = ?log2"
            using l page False d dNone
            by (simp add: cleanupLoop_Suc recording_simps listInput_recording deleteInput_recording)
          then show ?thesis using Suc.prems r2 by simp
        next
          case (Some tk)
          then have "cleanupLoop (Suc n) (recording t) r tot tok (s, log) =
              cleanupLoop n (recording t) r (tot + of_nat (length (Contents page))) (Some tk)
                (s2, ?log2)"
            using l page False d dNone
            by (simp add: cleanupLoop_Suc recording_simps listInput_recording deleteInput_recording)
          then have "?R c ?log2"
            using Suc.IH[of "tot + of_nat (length (Contents page))" "Some tk" s2 ?log2] Suc.prems
            by simp
          then show ?thesis using r2 by blast
        qed
      qed
    qed
  qed
qed


lemma deleteCalls_append: "deleteCalls (a @ b) = deleteCalls a @ deleteCalls b"
  by (induction a rule: deleteCalls.induct) simp_all

lemma listCalls_append: "listCalls (a @ b) = listCalls a @ listCalls b"
  by (induction a rule: listCalls.induct) simp_all







lemma fakeTransport_simps:
  "bucket (fakeTransport b ow) = b"
  "ListObjectsV2 (client (fakeTransport b ow)) inp (f, u) =
     (case fake_ListObjectsV2 inp f of (r, f') \<Rightarrow> (r, (f', u)))"
  "DeleteObjects (client (fakeTransport b ow)) d (f, u) =
     (None, (f\<lparr>deleteInputs := deleteInputs f @ [d]\<rparr>, u))"
  by (simp_all add: fakeTransport_def NewTransport_def fake_DeleteObjects_def)

lemma expectedCalls_inputs:
  "listInput (fakeTransport b ow) r tok =
     \<lparr>list_Bucket = Some b, list_Prefix = stringPointer r, list_ContinuationToken = tok\<rparr>"
  "deleteInput (fakeTransport b ow) page =
     \<lparr>del_Bucket = Some b,
       del_Delete = Some \<lparr>Objects = map (\<lambda>obj. \<lparr>oid_Key = obj_Key obj\<rparr>) (Contents page),
                          Quiet = Some True\<rparr>\<rparr>"
  by (simp_all add: listInput_def deleteInput_def fakeTransport_simps)

lemma cleanupLoop_scripted:
  "drop (listCallIndex f) (listOutputs f) = pages \<Longrightarrow> length pages < n \<Longrightarrow>
   cleanupLoop n (recording (fakeTransport b ow)) r tot tok ((f, u), log) =
     (Some (tot + of_nat (sum_list (map (\<lambda>p. length (Contents p)) (pagesRead pages))), None),
      ((f\<lparr>listCallIndex := listCallIndex f + length (pagesRead pages),
          deleteInputs := deleteInputs f @ deleteCalls (expectedCalls b (stringPointer r) tok pages)\<rparr>, u),
       log @ expectedCalls b (stringPointer r) tok pages))"
proof (induction pages arbitrary: n f tot tok log)
  case Nil
  then obtain m where m: "n = Suc m" by (cases n) auto
  have "listCallIndex f \<ge> length (listOutputs f)" using Nil.prems(1) by simp
  then have l: "ListObjectsV2 (client (fakeTransport b ow)) (listInput (fakeTransport b ow) r tok) (f, u) =
      (Inr \<lparr>Contents = [], NextContinuationToken = None\<rparr>, (f, u))"
    by (simp add: fakeTransport_simps fake_ListObjectsV2_def)
  show ?case unfolding m
    using l by (simp add: cleanupLoop_Suc recording_simps listInput_recording expectedCalls_inputs)
next
  case (Cons p ps)
  let ?t = "fakeTransport b ow"
  let ?inp = "listInput ?t r tok"
  let ?log1 = "log @ [ListCall ?inp]"
  let ?d = "deleteInput ?t p"
  let ?log2 = "?log1 @ [DeleteCall ?d]"
  obtain m where m: "n = Suc m" "length ps < m" using Cons.prems(2) by (cases n) auto
  have i: "listCallIndex f < length (listOutputs f)"
    using Cons.prems(1) by (metis drop_all list.distinct(1) not_le_imp_less)
  have p: "listOutputs f ! listCallIndex f = p" using Cons.prems(1) by (rule nth_via_drop)
  have ps: "drop (Suc (listCallIndex f)) (listOutputs f) = ps"
    using Cons.prems(1) by (metis drop_Suc list.sel(3) tl_drop)
  let ?f1 = "f\<lparr>listCallIndex := listCallIndex f + 1\<rparr>"
  let ?f2 = "?f1\<lparr>deleteInputs := deleteInputs f @ [?d]\<rparr>"
  have l: "ListObjectsV2 (client ?t) ?inp (f, u) = (Inr p, (?f1, u))"
    using i p by (simp add: fakeTransport_simps fake_ListObjectsV2_def Let_def)
  have d: "DeleteObjects (client ?t) ?d (?f1, u) = (None, (?f2, u))"
    by (simp add: fakeTransport_simps)
  have ps1: "drop (listCallIndex ?f1) (listOutputs ?f1) = ps" using ps by simp
  have ps2: "drop (listCallIndex ?f2) (listOutputs ?f2) = ps" using ps by simp
  show ?case
  proof (cases "Contents p = []")
    case True
    show ?thesis
    proof (cases "NextContinuationToken p")
      case None
      then show ?thesis unfolding m(1) using l True
        by (simp add: cleanupLoop_Suc recording_simps listInput_recording
              expectedCalls_inputs)
    next
      case (Some tk)
      have "cleanupLoop (Suc m) (recording ?t) r tot tok ((f, u), log) =
          cleanupLoop m (recording ?t) r tot (Some tk) ((?f1, u), ?log1)"
        using l True Some by (simp add: cleanupLoop_Suc recording_simps listInput_recording)
      then show ?thesis unfolding m(1)
        using Cons.IH[OF ps1 m(2), of tot "Some tk" ?log1] True Some
        by (simp add: expectedCalls_inputs)
    qed
  next
    case False
    show ?thesis
    proof (cases "NextContinuationToken p")
      case None
      then show ?thesis unfolding m(1) using l d False
        by (simp add: cleanupLoop_Suc recording_simps listInput_recording deleteInput_recording
              expectedCalls_inputs)
    next
      case (Some tk)
      have "cleanupLoop (Suc m) (recording ?t) r tot tok ((f, u), log) =
          cleanupLoop m (recording ?t) r (tot + of_nat (length (Contents p))) (Some tk)
            ((?f2, u), ?log2)"
        using l d False Some
        by (simp add: cleanupLoop_Suc recording_simps listInput_recording deleteInput_recording)
      then show ?thesis unfolding m(1)
        using Cons.IH[OF ps2 m(2), of "tot + of_nat (length (Contents p))" "Some tk" ?log2]
          False Some
        by (simp add: expectedCalls_inputs add.assoc)
    qed
  qed
qed


lemma spaceRun_chars:
  assumes "spaceRun s" and "c \<in> set s"
  shows "\<exists>w \<in> set whiteSpace. c \<in> set w"
proof -
  from assms(1) obtain ws where ws: "set ws \<subseteq> set whiteSpace" "s = concat ws"
    unfolding spaceRun_def by blast
  then obtain w where "w \<in> set ws" "c \<in> set w" using assms(2) by auto
  then show ?thesis using ws(1) by blast
qed

lemma slash_not_space: "w \<in> set whiteSpace \<Longrightarrow> CHR ''/'' \<notin> set w"
  by (auto simp: whiteSpace_def)

lemma TrimSpace_slash: "TrimSpace (a @ ''/'') \<noteq> []"
proof
  assume e: "TrimSpace (a @ ''/'') = []"
  obtain l r where s: "a @ ''/'' = l @ TrimSpace (a @ ''/'') @ r" "spaceRun l" "spaceRun r"
    using TrimSpace_split by blast
  then have "spaceRun (a @ ''/'')" using e spaceRun_append[of l r] by simp
  then have "\<exists>w \<in> set whiteSpace. CHR ''/'' \<in> set w" by (rule spaceRun_chars) simp
  then show False using slash_not_space by blast
qed

lemma TrimSpace_Nil: "TrimSpace [] = []"
  by code_simp

lemma stringPointer_resolvePrefix:
  "stringPointer (resolvePrefix pfx) =
     (if normalizePrefix pfx = [] then None else Some (normalizePrefix pfx @ ''/''))"
  using TrimSpace_slash[of "normalizePrefix pfx"]
  by (simp add: stringPointer_def resolvePrefix_def Let_def TrimSpace_Nil)

lemma ToString_stringPointer_resolvePrefix:
  "ToString (stringPointer (resolvePrefix pfx)) = resolvePrefix pfx"
  by (simp add: stringPointer_resolvePrefix ToString_def) (simp add: resolvePrefix_def)

lemma listCalls_mem: "inp \<in> set (listCalls log) \<longleftrightarrow> ListCall inp \<in> set log"
  by (induction log rule: listCalls.induct) auto

lemma deleteCalls_mem: "d \<in> set (deleteCalls log) \<longleftrightarrow> DeleteCall d \<in> set log"
  by (induction log rule: deleteCalls.induct) auto

lemma withPages_simps:
  "bucket (withPages t) = bucket t"
  "ListObjectsV2 (client (withPages t)) inp (s, pages) =
     (case ListObjectsV2 (client t) inp s of
        (Inl e, s') \<Rightarrow> (Inl e, (s', pages))
      | (Inr page, s') \<Rightarrow> (Inr page, (s', pages @ [page])))"
  "DeleteObjects (client (withPages t)) d (s, pages) =
     (case DeleteObjects (client t) d s of (r, s') \<Rightarrow> (r, (s', pages)))"
  by (simp_all add: withPages_def withPagesClient_def)

lemma listInput_withPages: "listInput (withPages t) r tok = listInput t r tok"
  by (simp add: listInput_def withPages_simps)

lemma deleteInput_withPages: "deleteInput (withPages t) page = deleteInput t page"
  by (simp add: deleteInput_def withPages_simps)

lemma namedKeys_simps:
  "namedKeys (log @ [ListCall inp]) = namedKeys log"
  "namedKeys (log @ [ListCall inp, DeleteCall (deleteInput t page)]) =
     namedKeys log @ map obj_Key (Contents page)"
  by (simp_all add: namedKeys_def deleteCalls_append deletedKeys_def deleteInput_def comp_def)

lemma listedKeys_snoc: "listedKeys (pages @ [page]) = listedKeys pages @ map obj_Key (Contents page)"
  by (simp add: listedKeys_def)

lemma cleanupLoop_observed:
  "cleanupLoop n (recording t) r tot tok (s, log) = (res, (s', log')) \<Longrightarrow>
   cleanupLoop n (withPages t) r tot tok (s, pages) = (res', (s'', pages')) \<Longrightarrow>
     cleanupLoop n t r tot tok s = (res, s') \<and> res' = res \<and> s'' = s' \<and>
     (\<exists>new. namedKeys log' = namedKeys log @ new \<and> listedKeys pages' = listedKeys pages @ new)"
proof (induction n arbitrary: tot tok s log pages)
  case 0
  then show ?case by simp
next
  case (Suc n)
  let ?inp = "listInput t r tok"
  let ?log1 = "log @ [ListCall ?inp]"
  obtain lr s1 where l: "ListObjectsV2 (client t) ?inp s = (lr, s1)" by force
  show ?case
  proof (cases lr)
    case (Inl e)
    have a: "cleanupLoop (Suc n) (recording t) r tot tok (s, log) =
        (Some (tot, Some (ErrList e)), (s1, ?log1))"
      using l Inl by (simp add: cleanupLoop_Suc recording_simps listInput_recording)
    have b: "cleanupLoop (Suc n) (withPages t) r tot tok (s, pages) =
        (Some (tot, Some (ErrList e)), (s1, pages))"
      using l Inl by (simp add: cleanupLoop_Suc withPages_simps listInput_withPages)
    have c: "cleanupLoop (Suc n) t r tot tok s = (Some (tot, Some (ErrList e)), s1)"
      using l Inl by (simp add: cleanupLoop_Suc)
    have "namedKeys ?log1 = namedKeys log @ [] \<and> listedKeys pages = listedKeys pages @ []"
      by (simp add: namedKeys_simps)
    then show ?thesis using a b c Suc.prems by auto
  next
    case (Inr page)
    note page = Inr
    let ?d = "deleteInput t page"
    let ?log2 = "log @ [ListCall ?inp, DeleteCall ?d]"
    let ?pages1 = "pages @ [page]"
    let ?tot1 = "tot + of_nat (length (Contents page))"
    show ?thesis
    proof (cases "Contents page = []")
      case True
      have k: "listedKeys ?pages1 = listedKeys pages" using True by (simp add: listedKeys_snoc)
      have k1: "namedKeys ?log1 = namedKeys log" by (simp add: namedKeys_simps)
      show ?thesis
      proof (cases "NextContinuationToken page")
        case None
        have a: "cleanupLoop (Suc n) (recording t) r tot tok (s, log) = (Some (tot, None), (s1, ?log1))"
          using l page True None by (simp add: cleanupLoop_Suc recording_simps listInput_recording)
        have b: "cleanupLoop (Suc n) (withPages t) r tot tok (s, pages) = (Some (tot, None), (s1, ?pages1))"
          using l page True None by (simp add: cleanupLoop_Suc withPages_simps listInput_withPages)
        have c: "cleanupLoop (Suc n) t r tot tok s = (Some (tot, None), s1)"
          using l page True None by (simp add: cleanupLoop_Suc)
        have "namedKeys ?log1 = namedKeys log @ [] \<and> listedKeys ?pages1 = listedKeys pages @ []"
          using k k1 by simp
        then show ?thesis using a b c Suc.prems by auto
      next
        case (Some tk)
        have a: "cleanupLoop (Suc n) (recording t) r tot tok (s, log) =
            cleanupLoop n (recording t) r tot (Some tk) (s1, ?log1)"
          using l page True Some by (simp add: cleanupLoop_Suc recording_simps listInput_recording)
        have b: "cleanupLoop (Suc n) (withPages t) r tot tok (s, pages) =
            cleanupLoop n (withPages t) r tot (Some tk) (s1, ?pages1)"
          using l page True Some by (simp add: cleanupLoop_Suc withPages_simps listInput_withPages)
        have c: "cleanupLoop (Suc n) t r tot tok s = cleanupLoop n t r tot (Some tk) s1"
          using l page True Some by (simp add: cleanupLoop_Suc)
        have "cleanupLoop n t r tot (Some tk) s1 = (res, s') \<and> res' = res \<and> s'' = s' \<and>
          (\<exists>new. namedKeys log' = namedKeys ?log1 @ new \<and> listedKeys pages' = listedKeys ?pages1 @ new)"
          using Suc.IH[of tot "Some tk" s1 ?log1 ?pages1] Suc.prems a b by simp
        then show ?thesis using c k k1 by simp
      qed
    next
      case False
      have k: "listedKeys ?pages1 = listedKeys pages @ map obj_Key (Contents page)"
        by (simp add: listedKeys_snoc)
      have k2: "namedKeys ?log2 = namedKeys log @ map obj_Key (Contents page)"
        by (simp add: namedKeys_simps)
      have ex: "\<exists>new. namedKeys ?log2 = namedKeys log @ new \<and> listedKeys ?pages1 = listedKeys pages @ new"
        using k k2 by blast
      obtain dr s2 where d: "DeleteObjects (client t) ?d s1 = (dr, s2)" by force
      show ?thesis
      proof (cases dr)
        case (Some e)
        have a: "cleanupLoop (Suc n) (recording t) r tot tok (s, log) =
            (Some (tot, Some (ErrDelete e)), (s2, ?log2))"
          using l page False d Some
          by (simp add: cleanupLoop_Suc recording_simps listInput_recording deleteInput_recording)
        have b: "cleanupLoop (Suc n) (withPages t) r tot tok (s, pages) =
            (Some (tot, Some (ErrDelete e)), (s2, ?pages1))"
          using l page False d Some
          by (simp add: cleanupLoop_Suc withPages_simps listInput_withPages deleteInput_withPages)
        have c: "cleanupLoop (Suc n) t r tot tok s = (Some (tot, Some (ErrDelete e)), s2)"
          using l page False d Some by (simp add: cleanupLoop_Suc)
        show ?thesis using a b c ex Suc.prems by auto
      next
        case None
        note dNone = None
        show ?thesis
        proof (cases "NextContinuationToken page")
          case None
          have a: "cleanupLoop (Suc n) (recording t) r tot tok (s, log) =
              (Some (?tot1, None), (s2, ?log2))"
            using l page False d dNone None
            by (simp add: cleanupLoop_Suc recording_simps listInput_recording deleteInput_recording)
          have b: "cleanupLoop (Suc n) (withPages t) r tot tok (s, pages) =
              (Some (?tot1, None), (s2, ?pages1))"
            using l page False d dNone None
            by (simp add: cleanupLoop_Suc withPages_simps listInput_withPages deleteInput_withPages)
          have c: "cleanupLoop (Suc n) t r tot tok s = (Some (?tot1, None), s2)"
            using l page False d dNone None by (simp add: cleanupLoop_Suc)
          show ?thesis using a b c ex Suc.prems by auto
        next
          case (Some tk)
          have a: "cleanupLoop (Suc n) (recording t) r tot tok (s, log) =
              cleanupLoop n (recording t) r ?tot1 (Some tk) (s2, ?log2)"
            using l page False d dNone Some
            by (simp add: cleanupLoop_Suc recording_simps listInput_recording deleteInput_recording)
          have b: "cleanupLoop (Suc n) (withPages t) r tot tok (s, pages) =
              cleanupLoop n (withPages t) r ?tot1 (Some tk) (s2, ?pages1)"
            using l page False d dNone Some
            by (simp add: cleanupLoop_Suc withPages_simps listInput_withPages deleteInput_withPages)
          have c: "cleanupLoop (Suc n) t r tot tok s = cleanupLoop n t r ?tot1 (Some tk) s2"
            using l page False d dNone Some by (simp add: cleanupLoop_Suc)
          have "cleanupLoop n t r ?tot1 (Some tk) s2 = (res, s') \<and> res' = res \<and> s'' = s' \<and>
            (\<exists>new. namedKeys log' = namedKeys ?log2 @ new \<and> listedKeys pages' = listedKeys ?pages1 @ new)"
            using Suc.IH[of ?tot1 "Some tk" s2 ?log2 ?pages1] Suc.prems a b by simp
          then show ?thesis using c k k2 by auto
        qed
      qed
    qed
  qed
qed

lemma Cleanup_observed:
  "fst (Cleanup fuel (recording t) pfx (s, [])) = fst (Cleanup fuel t pfx s) \<and>
   fst (snd (Cleanup fuel (recording t) pfx (s, []))) = snd (Cleanup fuel t pfx s) \<and>
   fst (Cleanup fuel (withPages t) pfx (s, [])) = fst (Cleanup fuel t pfx s) \<and>
   fst (snd (Cleanup fuel (withPages t) pfx (s, []))) = snd (Cleanup fuel t pfx s) \<and>
   namedKeys (snd (snd (Cleanup fuel (recording t) pfx (s, [])))) =
     listedKeys (snd (snd (Cleanup fuel (withPages t) pfx (s, []))))"
proof -
  let ?r = "resolvePrefix pfx"
  obtain res s' log' where a: "cleanupLoop fuel (recording t) ?r 0 None (s, []) = (res, (s', log'))"
    by (metis surj_pair)
  obtain res' s'' pages' where b: "cleanupLoop fuel (withPages t) ?r 0 None (s, []) = (res', (s'', pages'))"
    by (metis surj_pair)
  from cleanupLoop_observed[OF a b] have
    "cleanupLoop fuel t ?r 0 None s = (res, s') \<and> res' = res \<and> s'' = s' \<and>
     namedKeys log' = listedKeys pages'"
    by (auto simp: namedKeys_def listedKeys_def)
  then show ?thesis using a b by (simp add: Cleanup_def)
qed

lemma HasPrefix_Nil: "HasPrefix k []"
  by (simp add: HasPrefix_def)

lemma filter_not_mem_filter: "filter (\<lambda>k. Some k \<notin> Some ` set (filter P keys)) keys = filter (\<lambda>k. \<not> P k) keys"
  by (rule filter_cong) auto

lemma Cleanup_bucket:
  "Cleanup (Suc n) bucketTransport pfx keys =
     (Some (of_nat (length (filter (\<lambda>k. HasPrefix k (resolvePrefix pfx)) keys)), None),
      filter (\<lambda>k. \<not> HasPrefix k (resolvePrefix pfx)) keys)"
proof -
  let ?r = "resolvePrefix pfx"
  let ?in = "filter (\<lambda>k. HasPrefix k ?r) keys"
  let ?page = "\<lparr>Contents = map (\<lambda>k. \<lparr>obj_Key = Some k\<rparr>) ?in, NextContinuationToken = None\<rparr>"
  have l: "ListObjectsV2 (client bucketTransport) (listInput bucketTransport ?r None) keys =
      (Inr ?page, keys)"
    by (simp add: bucketTransport_def NewTransport_def bucketClient_def listInput_def
          ToString_stringPointer_resolvePrefix)
  show ?thesis
  proof (cases "?in = []")
    case True
    then have "filter (\<lambda>k. \<not> HasPrefix k ?r) keys = keys"
      by (simp add: filter_empty_conv)
    then show ?thesis using l True by (simp add: Cleanup_def cleanupLoop_Suc Let_def)
  next
    case False
    have d: "DeleteObjects (client bucketTransport) (deleteInput bucketTransport ?page) keys =
        (None, filter (\<lambda>k. \<not> HasPrefix k ?r) keys)"
      using filter_not_mem_filter[of "\<lambda>k. HasPrefix k ?r" keys]
      by (simp add: bucketTransport_def NewTransport_def bucketClient_def deleteInput_def
            deletedKeys_def comp_def image_image)
    show ?thesis using l d False by (simp add: Cleanup_def cleanupLoop_Suc Let_def)
  qed
qed

lemma cleanupLoop_log_grows:
  "\<exists>rest. snd (snd (cleanupLoop n (recording t) r tot tok (s, log))) = log @ rest"
proof (induction n arbitrary: tot tok s log)
  case 0
  then show ?case by simp
next
  case (Suc n)
  let ?inp = "listInput t r tok"
  let ?log1 = "log @ [ListCall ?inp]"
  obtain lr s1 where l: "ListObjectsV2 (client t) ?inp s = (lr, s1)" by force
  show ?case
  proof (cases lr)
    case (Inl e)
    then show ?thesis using l
      by (simp add: cleanupLoop_Suc recording_simps listInput_recording)
  next
    case (Inr page)
    note page = Inr
    let ?d = "deleteInput t page"
    let ?log2 = "?log1 @ [DeleteCall ?d]"
    show ?thesis
    proof (cases "Contents page = []")
      case True
      show ?thesis
      proof (cases "NextContinuationToken page")
        case None
        then show ?thesis using l page True
          by (simp add: cleanupLoop_Suc recording_simps listInput_recording)
      next
        case (Some tk)
        then have "cleanupLoop (Suc n) (recording t) r tot tok (s, log) =
            cleanupLoop n (recording t) r tot (Some tk) (s1, ?log1)"
          using l page True by (simp add: cleanupLoop_Suc recording_simps listInput_recording)
        then show ?thesis using Suc.IH[of tot "Some tk" s1 ?log1] by auto
      qed
    next
      case False
      obtain dr s2 where d: "DeleteObjects (client t) ?d s1 = (dr, s2)" by force
      show ?thesis
      proof (cases dr)
        case (Some e)
        then show ?thesis using l page False d
          by (simp add: cleanupLoop_Suc recording_simps listInput_recording deleteInput_recording)
      next
        case None
        note dNone = None
        show ?thesis
        proof (cases "NextContinuationToken page")
          case None
          then show ?thesis using l page False d dNone
            by (simp add: cleanupLoop_Suc recording_simps listInput_recording deleteInput_recording)
        next
          case (Some tk)
          then have "cleanupLoop (Suc n) (recording t) r tot tok (s, log) =
              cleanupLoop n (recording t) r (tot + of_nat (length (Contents page))) (Some tk)
                (s2, ?log2)"
            using l page False d dNone
            by (simp add: cleanupLoop_Suc recording_simps listInput_recording deleteInput_recording)
          then show ?thesis
            using Suc.IH[of "tot + of_nat (length (Contents page))" "Some tk" s2 ?log2] by auto
        qed
      qed
    qed
  qed
qed

lemma cleanupLoop_first_call:
  "\<exists>rest. snd (snd (cleanupLoop (Suc n) (recording t) r tot tok (s, log))) =
     log @ ListCall (listInput t r tok) # rest"
proof -
  let ?inp = "listInput t r tok"
  let ?log1 = "log @ [ListCall ?inp]"
  obtain lr s1 where l: "ListObjectsV2 (client t) ?inp s = (lr, s1)" by force
  show ?thesis
  proof (cases lr)
    case (Inl e)
    then show ?thesis using l
      by (simp add: cleanupLoop_Suc recording_simps listInput_recording)
  next
    case (Inr page)
    note page = Inr
    let ?d = "deleteInput t page"
    let ?log2 = "?log1 @ [DeleteCall ?d]"
    show ?thesis
    proof (cases "Contents page = []")
      case True
      show ?thesis
      proof (cases "NextContinuationToken page")
        case None
        then show ?thesis using l page True
          by (simp add: cleanupLoop_Suc recording_simps listInput_recording)
      next
        case (Some tk)
        then have "cleanupLoop (Suc n) (recording t) r tot tok (s, log) =
            cleanupLoop n (recording t) r tot (Some tk) (s1, ?log1)"
          using l page True by (simp add: cleanupLoop_Suc recording_simps listInput_recording)
        then show ?thesis using cleanupLoop_log_grows[of n t r tot "Some tk" s1 ?log1] by auto
      qed
    next
      case False
      obtain dr s2 where d: "DeleteObjects (client t) ?d s1 = (dr, s2)" by force
      show ?thesis
      proof (cases dr)
        case (Some e)
        then show ?thesis using l page False d
          by (simp add: cleanupLoop_Suc recording_simps listInput_recording deleteInput_recording)
      next
        case None
        note dNone = None
        show ?thesis
        proof (cases "NextContinuationToken page")
          case None
          then show ?thesis using l page False d dNone
            by (simp add: cleanupLoop_Suc recording_simps listInput_recording deleteInput_recording)
        next
          case (Some tk)
          then have "cleanupLoop (Suc n) (recording t) r tot tok (s, log) =
              cleanupLoop n (recording t) r (tot + of_nat (length (Contents page))) (Some tk)
                (s2, ?log2)"
            using l page False d dNone
            by (simp add: cleanupLoop_Suc recording_simps listInput_recording deleteInput_recording)
          then show ?thesis
            using cleanupLoop_log_grows[of n t r "tot + of_nat (length (Contents page))" "Some tk" s2 ?log2]
            by auto
        qed
      qed
    qed
  qed
qed

lemma Cleanup_first_call:
  "\<exists>rest. snd (snd (Cleanup (Suc n) (recording t) pfx (s, []))) =
     ListCall \<lparr>list_Bucket = Some (bucket t),
               list_Prefix = (if normalizePrefix pfx = [] then None
                              else Some (normalizePrefix pfx @ ''/'')),
               list_ContinuationToken = None\<rparr> # rest"
  using cleanupLoop_first_call[of n t "resolvePrefix pfx" 0 None s "[]"]
  by (simp add: Cleanup_def listInput_def stringPointer_resolvePrefix)

lemma Cleanup_bucket_scope:
  "Cleanup (Suc n) bucketTransport pfx keys =
     (if normalizePrefix pfx = [] then (Some (of_nat (length keys), None), [])
      else (Some (of_nat (length (filter (\<lambda>k. HasPrefix k (normalizePrefix pfx @ ''/'')) keys)), None),
            filter (\<lambda>k. \<not> HasPrefix k (normalizePrefix pfx @ ''/'')) keys))"
  by (simp add: Cleanup_bucket) (simp add: resolvePrefix_def HasPrefix_Nil)

text \<open>
  Claim C5, as amended. What a call of \<open>Cleanup\<close> lists depends on the
  normalized prefix argument. When that is empty (the argument is empty, or has nothing
  but white space and surrounding slashes, such as \<open>"/"\<close> or \<open>" "\<close>) every
  listing request has no prefix and covers the whole bucket, and the call clears it: on
  the bucket held in memory it deletes every object. Otherwise the prefix of every
  listing request is the normalized argument followed by a slash. In both cases the
  first request of a call is such a listing request, every listing request names the
  bucket of the transport, and the keys the delete requests of the call name are exactly
  the keys of the pages its listing requests returned, in the same order. So with a
  service that lists only keys under the prefix it is asked for, every key deleted starts
  with the normalized prefix and the slash: on the bucket held in memory the call
  deletes the keys that start with it, returns their number and leaves every other
  object, so that cleaning up \<open>builds\<close> lists under \<open>builds/\<close> and leaves
  \<open>builds-2/...\<close> alone. The two wrappers that observe the requests and the pages
  change neither the result of the call nor the state of the client.
\<close>

theorem cleanup_scope:
  "(\<forall>inp \<in> set (listCalls (snd (snd (Cleanup fuel (recording t) pfx (s, []))))).
      list_Bucket inp = Some (bucket t) \<and>
      list_Prefix inp = (if normalizePrefix pfx = [] then None
                         else Some (normalizePrefix pfx @ ''/''))) \<and>
   (honoursPrefix (client t) \<longrightarrow>
      (\<forall>d \<in> set (deleteCalls (snd (snd (Cleanup fuel (recording t) pfx (s, []))))).
         \<forall>k \<in> set (deletedKeys d). \<exists>key. k = Some key \<and>
            HasPrefix key (if normalizePrefix pfx = [] then [] else normalizePrefix pfx @ ''/''))) \<and>
   (\<exists>rest. snd (snd (Cleanup (Suc n) (recording t) pfx (s, []))) =
      ListCall \<lparr>list_Bucket = Some (bucket t),
                list_Prefix = (if normalizePrefix pfx = [] then None
                               else Some (normalizePrefix pfx @ ''/'')),
                list_ContinuationToken = None\<rparr> # rest) \<and>
   namedKeys (snd (snd (Cleanup fuel (recording t) pfx (s, [])))) =
     listedKeys (snd (snd (Cleanup fuel (withPages t) pfx (s, [])))) \<and>
   fst (Cleanup fuel (recording t) pfx (s, [])) = fst (Cleanup fuel t pfx s) \<and>
   fst (snd (Cleanup fuel (recording t) pfx (s, []))) = snd (Cleanup fuel t pfx s) \<and>
   fst (Cleanup fuel (withPages t) pfx (s, [])) = fst (Cleanup fuel t pfx s) \<and>
   fst (snd (Cleanup fuel (withPages t) pfx (s, []))) = snd (Cleanup fuel t pfx s) \<and>
   Cleanup (Suc n) bucketTransport pfx keys =
     (if normalizePrefix pfx = [] then (Some (of_nat (length keys), None), [])
      else (Some (of_nat (length (filter (\<lambda>k. HasPrefix k (normalizePrefix pfx @ ''/'')) keys)), None),
            filter (\<lambda>k. \<not> HasPrefix k (normalizePrefix pfx @ ''/'')) keys)) \<and>
   normalizePrefix [] = []"
proof -
  let ?log = "snd (snd (Cleanup fuel (recording t) pfx (s, [])))"
  let ?r = "resolvePrefix pfx"
  have origin: "c \<in> set ?log \<Longrightarrow> (\<exists>tk. c = ListCall (listInput t ?r tk)) \<or>
     (\<exists>tk sa page sb. ListObjectsV2 (client t) (listInput t ?r tk) sa = (Inr page, sb) \<and>
        c = DeleteCall (deleteInput t page))" for c
    using cleanupLoop_calls[of c fuel t ?r 0 None s "[]"] by (simp add: Cleanup_def)
  have 1: "list_Bucket inp = Some (bucket t) \<and>
      list_Prefix inp = (if normalizePrefix pfx = [] then None
                         else Some (normalizePrefix pfx @ ''/''))"
    if "inp \<in> set (listCalls ?log)" for inp
  proof -
    have "ListCall inp \<in> set ?log" using that by (simp add: listCalls_mem)
    then obtain tk where "inp = listInput t ?r tk" using origin by blast
    then show ?thesis by (simp add: listInput_def stringPointer_resolvePrefix)
  qed
  have 2: "\<exists>key. k = Some key \<and>
            HasPrefix key (if normalizePrefix pfx = [] then [] else normalizePrefix pfx @ ''/'')"
    if h: "honoursPrefix (client t)" and d: "d \<in> set (deleteCalls ?log)"
      and k: "k \<in> set (deletedKeys d)" for d k
  proof -
    have "DeleteCall d \<in> set ?log" using d by (simp add: deleteCalls_mem)
    then obtain tk sa page sb where
      p: "ListObjectsV2 (client t) (listInput t ?r tk) sa = (Inr page, sb)" "d = deleteInput t page"
      using origin by blast
    have "k \<in> obj_Key ` set (Contents page)"
      using k p(2) by (auto simp: deletedKeys_def deleteInput_def)
    then obtain obj where o: "obj \<in> set (Contents page)" "k = obj_Key obj" by blast
    then obtain key where "obj_Key obj = Some key"
      "HasPrefix key (ToString (list_Prefix (listInput t ?r tk)))"
      using h p(1) unfolding honoursPrefix_def by blast
    then have "k = Some key \<and> HasPrefix key ?r"
      using o(2) by (simp add: listInput_def ToString_stringPointer_resolvePrefix)
    then show ?thesis by (auto simp: resolvePrefix_def Let_def split: if_splits)
  qed
  have a: "\<forall>inp \<in> set (listCalls ?log).
      list_Bucket inp = Some (bucket t) \<and>
      list_Prefix inp = (if normalizePrefix pfx = [] then None
                         else Some (normalizePrefix pfx @ ''/''))"
    using 1 by blast
  have b: "honoursPrefix (client t) \<longrightarrow>
      (\<forall>d \<in> set (deleteCalls ?log).
         \<forall>k \<in> set (deletedKeys d). \<exists>key. k = Some key \<and>
            HasPrefix key (if normalizePrefix pfx = [] then [] else normalizePrefix pfx @ ''/''))"
    using 2 by blast
  note o = Cleanup_observed[of fuel t pfx s]
  show ?thesis
    apply (intro conjI)
    apply (rule a)
    apply (rule b)
    apply (rule Cleanup_first_call)
    apply (rule o[THEN conjunct2, THEN conjunct2, THEN conjunct2, THEN conjunct2])
    apply (rule o[THEN conjunct1])
    apply (rule o[THEN conjunct2, THEN conjunct1])
    apply (rule o[THEN conjunct2, THEN conjunct2, THEN conjunct1])
    apply (rule o[THEN conjunct2, THEN conjunct2, THEN conjunct2, THEN conjunct1])
    apply (rule Cleanup_bucket_scope)
    apply (rule normalizePrefix_Nil)
    done
qed

theorem cleanup_scope_witness:
  "map list_Prefix (listCalls (snd (snd (Cleanup 3 (recording bucketTransport) ''builds''
        ([''builds/a'', ''builds-2/b'', ''other''], []))))) = [Some ''builds/''] \<and>
   concat (map deletedKeys (deleteCalls (snd (snd (Cleanup 3 (recording bucketTransport) ''builds''
        ([''builds/a'', ''builds-2/b'', ''other''], [])))))) = [Some ''builds/a''] \<and>
   HasPrefix ''builds/a'' ''builds/'' \<and>
   \<not> HasPrefix ''builds-2/b'' ''builds/'' \<and>
   Cleanup 3 bucketTransport ''builds'' [''builds/a'', ''builds-2/b'', ''other''] =
     (Some (1, None), [''builds-2/b'', ''other'']) \<and>
   listedKeys (snd (snd (Cleanup 3 (withPages bucketTransport) ''builds''
        ([''builds/a'', ''builds-2/b'', ''other''], [])))) = [Some ''builds/a''] \<and>
   Cleanup 3 bucketTransport [] [''builds/a'', ''builds-2/b'', ''other''] = (Some (3, None), [])"
proof -
  let ?keys = "[''builds/a'', ''builds-2/b'', ''other'']"
  have n: "normalizePrefix ''builds'' = ''builds''" by code_simp
  have h: "honoursPrefix (client bucketTransport)"
    by (auto simp: honoursPrefix_def bucketTransport_def NewTransport_def bucketClient_def)
  have b: "\<not> HasPrefix ''builds-2/b'' ''builds/''" by (simp add: HasPrefix_def)
  have ev: "snd (snd (Cleanup 3 (recording bucketTransport) ''builds'' (?keys, []))) =
      [ListCall \<lparr>list_Bucket = Some ''bucket'', list_Prefix = Some ''builds/'',
                 list_ContinuationToken = None\<rparr>,
       DeleteCall \<lparr>del_Bucket = Some ''bucket'',
                   del_Delete = Some \<lparr>Objects = [\<lparr>oid_Key = Some ''builds/a''\<rparr>],
                                      Quiet = Some True\<rparr>\<rparr>]"
    by code_simp
  note th = cleanup_scope[where t = bucketTransport and pfx = "''builds''" and fuel = 3
        and s = ?keys and n = 2 and keys = ?keys]
  have t: "HasPrefix ''builds/a'' ''builds/''"
    using th unfolding ev n using h by (simp add: deletedKeys_def)
  have c: "Cleanup 3 bucketTransport ''builds'' ?keys = (Some (1, None), [''builds-2/b'', ''other''])"
    using th unfolding n by (simp add: HasPrefix_def)
  have l: "listedKeys (snd (snd (Cleanup 3 (withPages bucketTransport) ''builds'' (?keys, [])))) =
      [Some ''builds/a'']"
    using th unfolding ev by (simp add: namedKeys_def deletedKeys_def)
  have e: "Cleanup 3 bucketTransport [] ?keys = (Some (3, None), [])"
    using cleanup_scope[where t = bucketTransport and pfx = "[]" and fuel = 3
        and s = ?keys and n = 2 and keys = ?keys]
    by simp
  show ?thesis unfolding ev using t b c l e by (simp add: deletedKeys_def)
qed

text \<open>
  The prefix \<open>"/"\<close> is not empty, yet \<open>Cleanup\<close> lists with no prefix and deletes
  every object of the bucket: the claim C5 as stated, that a non-empty prefix scopes the
  listing to a folder, fails there.
\<close>

theorem cleanup_scope_counterexample:
  "''/'' \<noteq> [] \<and>
   Cleanup 3 (recording bucketTransport) ''/'' ([''builds/a'', ''builds-2/b'', ''other''], []) =
     (Some (3, None),
      ([], [ListCall \<lparr>list_Bucket = Some ''bucket'', list_Prefix = None,
                      list_ContinuationToken = None\<rparr>,
            DeleteCall \<lparr>del_Bucket = Some ''bucket'',
                        del_Delete = Some \<lparr>Objects = [\<lparr>oid_Key = Some ''builds/a''\<rparr>,
                                                      \<lparr>oid_Key = Some ''builds-2/b''\<rparr>,
                                                      \<lparr>oid_Key = Some ''other''\<rparr>],
                                           Quiet = Some True\<rparr>\<rparr>]))"
proof -
  have "Cleanup 3 (recording bucketTransport) ''/'' ([''builds/a'', ''builds-2/b'', ''other''], []) =
     (Some (3, None),
      ([], [ListCall \<lparr>list_Bucket = Some ''bucket'', list_Prefix = None,
                      list_ContinuationToken = None\<rparr>,
            DeleteCall \<lparr>del_Bucket = Some ''bucket'',
                        del_Delete = Some \<lparr>Objects = [\<lparr>oid_Key = Some ''builds/a''\<rparr>,
                                                      \<lparr>oid_Key = Some ''builds-2/b''\<rparr>,
                                                      \<lparr>oid_Key = Some ''other''\<rparr>],
                                           Quiet = Some True\<rparr>\<rparr>]))"
    by code_simp
  then show ?thesis by simp
qed


text \<open>
  Claim C6. One iteration of the loop of \<open>Cleanup\<close>, for every client: a page without
  objects ends the loop with the count so far when it has no continuation token, and
  otherwise the loop goes on with that token and the same count; a page with objects,
  once its delete request (quiet, naming the key of every object of the page) has
  succeeded, adds the number of its objects to the count and ends the loop or goes on
  in the same way. For every list of pages the test double answers with, a call with
  enough fuel returns the number of objects of the pages read, and sends exactly the
  expected requests: for each page read one listing request with the token of the page
  before, and one delete request if and only if the page has objects.
\<close>

theorem cleanup_pages:
  "(ListObjectsV2 (client t) (listInput t r tok) s = (Inr page, sa) \<and> Contents page = [] \<longrightarrow>
      cleanupLoop (Suc n) t r tot tok s =
        (case NextContinuationToken page of
           None \<Rightarrow> (Some (tot, None), sa)
         | Some next \<Rightarrow> cleanupLoop n t r tot (Some next) sa)) \<and>
   (ListObjectsV2 (client t) (listInput t r tok) s = (Inr page, sa) \<and> Contents page \<noteq> [] \<and>
    DeleteObjects (client t) (deleteInput t page) sa = (None, sb) \<longrightarrow>
      cleanupLoop (Suc n) t r tot tok s =
        (case NextContinuationToken page of
           None \<Rightarrow> (Some (tot + of_nat (length (Contents page)), None), sb)
         | Some next \<Rightarrow>
             cleanupLoop n t r (tot + of_nat (length (Contents page))) (Some next) sb)) \<and>
   (length pages < fuel \<longrightarrow>
      Cleanup fuel (recording (fakeTransport b ow)) pfx ((fake0\<lparr>listOutputs := pages\<rparr>, u), []) =
        (Some (of_nat (sum_list (map (\<lambda>p. length (Contents p)) (pagesRead pages))), None),
         ((fake0\<lparr>listOutputs := pages, listCallIndex := length (pagesRead pages),
                 deleteInputs :=
                   deleteCalls (expectedCalls b (stringPointer (resolvePrefix pfx)) None pages)\<rparr>,
           u),
          expectedCalls b (stringPointer (resolvePrefix pfx)) None pages)))"
proof -
  have 1: "ListObjectsV2 (client t) (listInput t r tok) s = (Inr page, sa) \<and> Contents page = [] \<longrightarrow>
      cleanupLoop (Suc n) t r tot tok s =
        (case NextContinuationToken page of
           None \<Rightarrow> (Some (tot, None), sa)
         | Some next \<Rightarrow> cleanupLoop n t r tot (Some next) sa)"
    by (simp add: cleanupLoop_Suc)
  have 2: "ListObjectsV2 (client t) (listInput t r tok) s = (Inr page, sa) \<and> Contents page \<noteq> [] \<and>
    DeleteObjects (client t) (deleteInput t page) sa = (None, sb) \<longrightarrow>
      cleanupLoop (Suc n) t r tot tok s =
        (case NextContinuationToken page of
           None \<Rightarrow> (Some (tot + of_nat (length (Contents page)), None), sb)
         | Some next \<Rightarrow>
             cleanupLoop n t r (tot + of_nat (length (Contents page))) (Some next) sb)"
    by (simp add: cleanupLoop_Suc)
  have 3: "Cleanup fuel (recording (fakeTransport b ow)) pfx ((fake0\<lparr>listOutputs := pages\<rparr>, u), []) =
        (Some (of_nat (sum_list (map (\<lambda>p. length (Contents p)) (pagesRead pages))), None),
         ((fake0\<lparr>listOutputs := pages, listCallIndex := length (pagesRead pages),
                 deleteInputs :=
                   deleteCalls (expectedCalls b (stringPointer (resolvePrefix pfx)) None pages)\<rparr>,
           u),
          expectedCalls b (stringPointer (resolvePrefix pfx)) None pages))"
    if "length pages < fuel"
    using cleanupLoop_scripted[of "fake0\<lparr>listOutputs := pages\<rparr>" pages fuel b ow
        "resolvePrefix pfx" 0 None u "[]"] that
    by (simp add: Cleanup_def fake0_def)
  show ?thesis using 1 2 3 by blast
qed

theorem cleanup_pages_witness:
  "cleanupLoop (Suc 0) (fakeTransport ''bucket'' True) ''prefix/'' 0 None (fake0, stub0) =
     (Some (0, None), (fake0, stub0)) \<and>
   cleanupLoop (Suc 0) (fakeTransport ''bucket'' True) ''prefix/'' 0 None
     (fake0\<lparr>listOutputs :=
         [\<lparr>Contents = [\<lparr>obj_Key = Some ''prefix/file1''\<rparr>, \<lparr>obj_Key = Some ''prefix/file2''\<rparr>],
           NextContinuationToken = None\<rparr>]\<rparr>, stub0) =
     (Some (2, None),
      (fake0\<lparr>listOutputs :=
         [\<lparr>Contents = [\<lparr>obj_Key = Some ''prefix/file1''\<rparr>, \<lparr>obj_Key = Some ''prefix/file2''\<rparr>],
           NextContinuationToken = None\<rparr>],
        listCallIndex := 1,
        deleteInputs :=
          [\<lparr>del_Bucket = Some ''bucket'',
            del_Delete = Some \<lparr>Objects = [\<lparr>oid_Key = Some ''prefix/file1''\<rparr>,
                                          \<lparr>oid_Key = Some ''prefix/file2''\<rparr>],
                               Quiet = Some True\<rparr>\<rparr>]\<rparr>, stub0)) \<and>
   Cleanup 4 (recording (fakeTransport ''bucket'' True)) ''prefix''
     ((fake0\<lparr>listOutputs :=
         [\<lparr>Contents = [], NextContinuationToken = Some ''t1''\<rparr>,
          \<lparr>Contents = [\<lparr>obj_Key = Some ''prefix/file1''\<rparr>, \<lparr>obj_Key = Some ''prefix/file2''\<rparr>],
           NextContinuationToken = Some ''t2''\<rparr>,
          \<lparr>Contents = [\<lparr>obj_Key = Some ''prefix/file3''\<rparr>],
           NextContinuationToken = None\<rparr>]\<rparr>, stub0), []) =
   (Some (3, None),
    ((fake0\<lparr>listOutputs :=
         [\<lparr>Contents = [], NextContinuationToken = Some ''t1''\<rparr>,
          \<lparr>Contents = [\<lparr>obj_Key = Some ''prefix/file1''\<rparr>, \<lparr>obj_Key = Some ''prefix/file2''\<rparr>],
           NextContinuationToken = Some ''t2''\<rparr>,
          \<lparr>Contents = [\<lparr>obj_Key = Some ''prefix/file3''\<rparr>],
           NextContinuationToken = None\<rparr>],
        listCallIndex := 3,
        deleteInputs :=
          [\<lparr>del_Bucket = Some ''bucket'',
            del_Delete = Some \<lparr>Objects = [\<lparr>oid_Key = Some ''prefix/file1''\<rparr>,
                                          \<lparr>oid_Key = Some ''prefix/file2''\<rparr>],
                               Quiet = Some True\<rparr>\<rparr>,
           \<lparr>del_Bucket = Some ''bucket'',
            del_Delete = Some \<lparr>Objects = [\<lparr>oid_Key = Some ''prefix/file3''\<rparr>],
                               Quiet = Some True\<rparr>\<rparr>]\<rparr>, stub0),
     [ListCall \<lparr>list_Bucket = Some ''bucket'', list_Prefix = Some ''prefix/'',
                list_ContinuationToken = None\<rparr>,
      ListCall \<lparr>list_Bucket = Some ''bucket'', list_Prefix = Some ''prefix/'',
                list_ContinuationToken = Some ''t1''\<rparr>,
      DeleteCall \<lparr>del_Bucket = Some ''bucket'',
            del_Delete = Some \<lparr>Objects = [\<lparr>oid_Key = Some ''prefix/file1''\<rparr>,
                                          \<lparr>oid_Key = Some ''prefix/file2''\<rparr>],
                               Quiet = Some True\<rparr>\<rparr>,
      ListCall \<lparr>list_Bucket = Some ''bucket'', list_Prefix = Some ''prefix/'',
                list_ContinuationToken = Some ''t2''\<rparr>,
      DeleteCall \<lparr>del_Bucket = Some ''bucket'',
            del_Delete = Some \<lparr>Objects = [\<lparr>oid_Key = Some ''prefix/file3''\<rparr>],
                               Quiet = Some True\<rparr>\<rparr>]))"
proof -
  let ?t = "fakeTransport ''bucket'' True"
  let ?page = "\<lparr>Contents = [\<lparr>obj_Key = Some ''prefix/file1''\<rparr>, \<lparr>obj_Key = Some ''prefix/file2''\<rparr>],
           NextContinuationToken = None\<rparr>"
  let ?f = "fake0\<lparr>listOutputs := [?page]\<rparr>"
  let ?pages = "[\<lparr>Contents = [], NextContinuationToken = Some ''t1''\<rparr>,
          \<lparr>Contents = [\<lparr>obj_Key = Some ''prefix/file1''\<rparr>, \<lparr>obj_Key = Some ''prefix/file2''\<rparr>],
           NextContinuationToken = Some ''t2''\<rparr>,
          \<lparr>Contents = [\<lparr>obj_Key = Some ''prefix/file3''\<rparr>],
           NextContinuationToken = None\<rparr>]"
  have p: "stringPointer (resolvePrefix ''prefix'') = Some ''prefix/''" by code_simp
  have l1: "ListObjectsV2 (client ?t) (listInput ?t ''prefix/'' None) (fake0, stub0) =
      (Inr \<lparr>Contents = [], NextContinuationToken = None\<rparr>, (fake0, stub0))"
    by (simp add: fakeTransport_simps fake_ListObjectsV2_def fake0_def)
  have l2: "ListObjectsV2 (client ?t) (listInput ?t ''prefix/'' None) (?f, stub0) =
      (Inr ?page, (?f\<lparr>listCallIndex := 1\<rparr>, stub0))"
    by (simp add: fakeTransport_simps fake_ListObjectsV2_def fake0_def)
  have d2: "DeleteObjects (client ?t) (deleteInput ?t ?page) (?f\<lparr>listCallIndex := 1\<rparr>, stub0) =
      (None, (?f\<lparr>listCallIndex := 1, deleteInputs := [deleteInput ?t ?page]\<rparr>, stub0))"
    by (simp add: fakeTransport_simps fake0_def)
  have 1: "cleanupLoop (Suc 0) ?t ''prefix/'' 0 None (fake0, stub0) =
      (Some (0, None), (fake0, stub0))"
    using l1 cleanup_pages[where t = ?t and r = "''prefix/''" and tok = None
        and s = "(fake0, stub0)" and sa = "(fake0, stub0)" and sb = "(fake0, stub0)"
        and page = "\<lparr>Contents = [], NextContinuationToken = None\<rparr>"
        and n = 0 and tot = 0 and pages = "[]" and fuel = 1 and b = "''bucket''" and ow = True
        and pfx = "''prefix''" and u = stub0]
    by simp
  have 2: "cleanupLoop (Suc 0) ?t ''prefix/'' 0 None (?f, stub0) =
      (Some (2, None),
       (?f\<lparr>listCallIndex := 1, deleteInputs := [deleteInput ?t ?page]\<rparr>, stub0))"
    using l2 d2 cleanup_pages[where t = ?t and r = "''prefix/''" and tok = None
        and s = "(?f, stub0)" and sa = "(?f\<lparr>listCallIndex := 1\<rparr>, stub0)"
        and sb = "(?f\<lparr>listCallIndex := 1, deleteInputs := [deleteInput ?t ?page]\<rparr>, stub0)"
        and page = ?page
        and n = 0 and tot = 0 and pages = "[]" and fuel = 1 and b = "''bucket''" and ow = True
        and pfx = "''prefix''" and u = stub0]
    by simp
  have 3: "Cleanup 4 (recording ?t) ''prefix'' ((fake0\<lparr>listOutputs := ?pages\<rparr>, stub0), []) =
      (Some (of_nat (sum_list (map (\<lambda>p. length (Contents p)) (pagesRead ?pages))), None),
         ((fake0\<lparr>listOutputs := ?pages, listCallIndex := length (pagesRead ?pages),
                 deleteInputs :=
                   deleteCalls (expectedCalls ''bucket'' (stringPointer (resolvePrefix ''prefix'')) None ?pages)\<rparr>,
           stub0),
          expectedCalls ''bucket'' (stringPointer (resolvePrefix ''prefix'')) None ?pages))"
    using cleanup_pages[where t = ?t and r = "''prefix/''" and tok = None
        and s = "(fake0, stub0)" and sa = "(fake0, stub0)" and sb = "(fake0, stub0)"
        and page = "\<lparr>Contents = [], NextContinuationToken = None\<rparr>"
        and n = 0 and tot = 0 and pages = ?pages and fuel = 4 and b = "''bucket''" and ow = True
        and pfx = "''prefix''" and u = stub0]
    by simp
  show ?thesis using 1 2 3 by (simp add: p expectedCalls_inputs)
qed




end
